theory Spec2Isabelle
  imports Main "HOL-Library.DAList"
begin

section \<open>Sparse matrices: the data model\<close>

text \<open>
  The repository holds two implementations of one class \<open>SparseMatrix\<close>:
  \<^verbatim>\<open>src/code/sparse_matrix.py\<close> (suffix \<open>_code\<close> below) and
  \<^verbatim>\<open>src/integral-file/sparse_matrix.py\<close> (suffix \<open>_integral\<close>). Both keep the
  fields \<open>rows\<close>, \<open>cols\<close> and a dictionary \<open>data\<close> from coordinate pairs to values.

  A Python dictionary has unique keys and iterates in insertion order; it is modelled
  by an association list with distinct keys (\<open>DAList\<close>): \<open>DAList.update\<close> overwrites in
  place or appends a new key at the end, \<open>DAList.delete\<close> removes the key,
  \<open>DAList.lookup\<close> reads it, and \<open>DAList.impl_of\<close> is the sequence \<open>d.items()\<close>.
  Python integers are unbounded: \<open>int\<close>.
\<close>

type_synonym coord = "int \<times> int"
type_synonym dict = "(coord, int) alist"

record matrix =
  rows :: int
  cols :: int
  data :: dict

text \<open>
  The errors of the specification: \<open>FormatError\<close> is the \<open>ValueError\<close> raised by the
  file readers, \<open>DimensionMismatch\<close> the \<open>ValueError\<close> raised by the operators, and
  \<open>IndexOutOfBounds\<close> the \<open>IndexError\<close> of the validating accessors.
\<close>

datatype error = FormatError | DimensionMismatch | IndexOutOfBounds

text \<open>\<open>d.get(key, default)\<close>, \<open>key in d\<close>, \<open>d.items()\<close> and \<open>range(n)\<close>.\<close>

definition dict_get :: "dict \<Rightarrow> coord \<Rightarrow> int \<Rightarrow> int" where
  "dict_get d key dflt = (case DAList.lookup d key of None \<Rightarrow> dflt | Some v \<Rightarrow> v)"

definition dict_in :: "coord \<Rightarrow> dict \<Rightarrow> bool" where
  "dict_in key d = (DAList.lookup d key \<noteq> None)"

definition items :: "dict \<Rightarrow> (coord \<times> int) list" where
  "items d = DAList.impl_of d"

definition range_py :: "int \<Rightarrow> int list" where
  "range_py n = [0..n - 1]"

text \<open>
  A loop whose body may raise: the first error ends the loop, as the exception does.
\<close>

fun for_each :: "'a list \<Rightarrow> ('a \<Rightarrow> 's \<Rightarrow> error + 's) \<Rightarrow> 's \<Rightarrow> error + 's" where
  "for_each [] body s = Inr s"
| "for_each (x # xs) body s =
     (case body x s of Inl e \<Rightarrow> Inl e | Inr s' \<Rightarrow> for_each xs body s')"

text \<open>
  The data-model invariants of the specification: every stored key lies inside the
  shape, and no stored value is zero.
\<close>

definition in_bounds :: "matrix \<Rightarrow> int \<Rightarrow> int \<Rightarrow> bool" where
  "in_bounds m r c = (0 \<le> r \<and> r < rows m \<and> 0 \<le> c \<and> c < cols m)"

definition invariants :: "matrix \<Rightarrow> bool" where
  "invariants m =
     list_all (\<lambda>((r, c), v). in_bounds m r c \<and> v \<noteq> 0) (items (data m))"

section \<open>src/code/sparse_matrix.py\<close>

text \<open>\<open>__init__(self, rows=0, cols=0)\<close>: the dictionary starts empty.\<close>

definition SparseMatrix_code :: "int \<Rightarrow> int \<Rightarrow> matrix" where
  "SparseMatrix_code r c = \<lparr>rows = r, cols = c, data = DAList.empty\<rparr>"

text \<open>\<open>getElement\<close> is \<open>self.data.get((row, col), 0)\<close>: no validation, it cannot raise.\<close>

definition getElement_code :: "matrix \<Rightarrow> int \<Rightarrow> int \<Rightarrow> int" where
  "getElement_code self row col = dict_get (data self) (row, col) 0"

text \<open>\<open>setElement\<close> mutates \<open>self.data\<close>; the model returns the updated object.\<close>

definition setElement_code :: "matrix \<Rightarrow> int \<Rightarrow> int \<Rightarrow> int \<Rightarrow> matrix" where
  "setElement_code self row col v =
     (if v = 0 then
        (if dict_in (row, col) (data self)
         then self\<lparr>data := DAList.delete (row, col) (data self)\<rparr>
         else self)
      else self\<lparr>data := DAList.update (row, col) v (data self)\<rparr>)"

text \<open>
  \<open>add\<close>: the first loop runs over the keys \<open>pos\<close> of \<open>self.data\<close> and reads
  \<open>self.data[pos]\<close>, which is the value paired with \<open>pos\<close> in \<open>items\<close>; the second loop
  does the same for \<open>other.data\<close>.
\<close>

definition add_code :: "matrix \<Rightarrow> matrix \<Rightarrow> error + matrix" where
  "add_code self other =
     (if rows self \<noteq> rows other \<or> cols self \<noteq> cols other then Inl DimensionMismatch
      else
        let result = SparseMatrix_code (rows self) (cols self);
            result = foldl (\<lambda>res (pos, v).
                        setElement_code res (fst pos) (snd pos)
                          (v + getElement_code other (fst pos) (snd pos)))
                       result (items (data self));
            result = foldl (\<lambda>res (pos, v).
                        if \<not> dict_in pos (data self)
                        then setElement_code res (fst pos) (snd pos) v
                        else res)
                       result (items (data other))
        in Inr result)"

definition subtract_code :: "matrix \<Rightarrow> matrix \<Rightarrow> error + matrix" where
  "subtract_code self other =
     (if rows self \<noteq> rows other \<or> cols self \<noteq> cols other then Inl DimensionMismatch
      else
        let result = SparseMatrix_code (rows self) (cols self);
            result = foldl (\<lambda>res (pos, v).
                        setElement_code res (fst pos) (snd pos)
                          (v - getElement_code other (fst pos) (snd pos)))
                       result (items (data self));
            result = foldl (\<lambda>res (pos, v).
                        if \<not> dict_in pos (data self)
                        then setElement_code res (fst pos) (snd pos) (- v)
                        else res)
                       result (items (data other))
        in Inr result)"

text \<open>\<open>multiply\<close>: the dense triple loop over \<open>i\<close>, \<open>j\<close> and \<open>k\<close>.\<close>

definition total_code :: "matrix \<Rightarrow> matrix \<Rightarrow> int \<Rightarrow> int \<Rightarrow> int" where
  "total_code self other i j =
     foldl (\<lambda>total k. total + getElement_code self i k * getElement_code other k j)
       0 (range_py (cols self))"

definition multiply_code :: "matrix \<Rightarrow> matrix \<Rightarrow> error + matrix" where
  "multiply_code self other =
     (if cols self \<noteq> rows other then Inl DimensionMismatch
      else
        let result = SparseMatrix_code (rows self) (cols other)
        in Inr (foldl (\<lambda>res i.
                  foldl (\<lambda>res j.
                    let total = total_code self other i j
                    in if total \<noteq> 0 then setElement_code res i j total else res)
                  res (range_py (cols other)))
                result (range_py (rows self))))"

section \<open>src/integral-file/sparse_matrix.py\<close>

text \<open>
  \<open>__init__(self, rows=0, cols=0, data=None)\<close> keeps \<open>data\<close> unless it is \<open>None\<close> or
  empty (\<open>data if data else {}\<close>).
\<close>

definition SparseMatrix_integral :: "int \<Rightarrow> int \<Rightarrow> dict option \<Rightarrow> matrix" where
  "SparseMatrix_integral r c d =
     \<lparr>rows = r, cols = c,
      data = (case d of None \<Rightarrow> DAList.empty
              | Some d' \<Rightarrow> if items d' = [] then DAList.empty else d')\<rparr>"

definition out_of_range :: "matrix \<Rightarrow> int \<Rightarrow> int \<Rightarrow> bool" where
  "out_of_range self row col =
     (row < 0 \<or> row \<ge> rows self \<or> col < 0 \<or> col \<ge> cols self)"

definition getElement_integral :: "matrix \<Rightarrow> int \<Rightarrow> int \<Rightarrow> error + int" where
  "getElement_integral self row col =
     (if out_of_range self row col then Inl IndexOutOfBounds
      else Inr (dict_get (data self) (row, col) 0))"

definition setElement_integral :: "matrix \<Rightarrow> int \<Rightarrow> int \<Rightarrow> int \<Rightarrow> error + matrix" where
  "setElement_integral self row col v =
     (if out_of_range self row col then Inl IndexOutOfBounds
      else if v \<noteq> 0 then Inr (self\<lparr>data := DAList.update (row, col) v (data self)\<rparr>)
      else if dict_in (row, col) (data self)
      then Inr (self\<lparr>data := DAList.delete (row, col) (data self)\<rparr>)
      else Inr self)"

text \<open>
  \<open>add\<close> and \<open>subtract\<close> copy \<open>self.data\<close> and merge \<open>other.data\<close> into the copy.
  \<open>result_data[key] += value\<close> reads the entry, which exists since \<open>key in result_data\<close>.
\<close>

definition merge_entry :: "(int \<Rightarrow> int \<Rightarrow> int) \<Rightarrow> (int \<Rightarrow> int) \<Rightarrow> dict \<Rightarrow> coord \<times> int \<Rightarrow> dict" where
  "merge_entry combine fresh result_data kv =
     (case kv of (key, v) \<Rightarrow>
        (case DAList.lookup result_data key of
           Some old \<Rightarrow>
             let result_data = DAList.update key (combine old v) result_data
             in if dict_get result_data key 0 = 0 then DAList.delete key result_data
                else result_data
         | None \<Rightarrow> DAList.update key (fresh v) result_data))"

definition add_integral :: "matrix \<Rightarrow> matrix \<Rightarrow> error + matrix" where
  "add_integral self other =
     (if rows self \<noteq> rows other \<or> cols self \<noteq> cols other then Inl DimensionMismatch
      else
        let result_data = foldl (merge_entry (\<lambda>old v. old + v) (\<lambda>v. v))
                            (data self) (items (data other))
        in Inr (SparseMatrix_integral (rows self) (cols self) (Some result_data)))"

definition subtract_integral :: "matrix \<Rightarrow> matrix \<Rightarrow> error + matrix" where
  "subtract_integral self other =
     (if rows self \<noteq> rows other \<or> cols self \<noteq> cols other then Inl DimensionMismatch
      else
        let result_data = foldl (merge_entry (\<lambda>old v. old - v) (\<lambda>v. - v))
                            (data self) (items (data other))
        in Inr (SparseMatrix_integral (rows self) (cols self) (Some result_data)))"

text \<open>
  \<open>multiply\<close>: for every stored entry \<open>((i, k), val1)\<close> of \<open>self\<close> and every column
  \<open>j\<close>, \<open>other.getElement(k, j)\<close> is read (it may raise \<open>IndexError\<close>) and a non-zero
  product is accumulated into \<open>result_data\<close>; an entry that becomes zero is deleted.
\<close>

definition accumulate :: "matrix \<Rightarrow> int \<Rightarrow> int \<Rightarrow> int \<Rightarrow> int \<Rightarrow> dict \<Rightarrow> error + dict" where
  "accumulate other i k val1 j result_data =
     (case getElement_integral other k j of
        Inl e \<Rightarrow> Inl e
      | Inr val2 \<Rightarrow>
          if val2 \<noteq> 0 then
            let result_key = (i, j);
                result_data = DAList.update result_key
                                (dict_get result_data result_key 0 + val1 * val2) result_data
            in if dict_get result_data result_key 0 = 0
               then Inr (DAList.delete result_key result_data)
               else Inr result_data
          else Inr result_data)"

definition multiply_integral :: "matrix \<Rightarrow> matrix \<Rightarrow> error + matrix" where
  "multiply_integral self other =
     (if cols self \<noteq> rows other then Inl DimensionMismatch
      else
        let result_rows = rows self; result_cols = cols other
        in case for_each (items (data self))
                  (\<lambda>((i, k), val1). for_each (range_py result_cols) (accumulate other i k val1))
                  DAList.empty
           of Inl e \<Rightarrow> Inl e
            | Inr result_data \<Rightarrow>
                Inr (SparseMatrix_integral result_rows result_cols (Some result_data)))"

section \<open>Text and the Python string builtins\<close>

text \<open>
  A text is a list of characters; a \<open>char\<close> stands for the code point of the same
  number (U+0000 to U+00FF), so the texts of the model are the texts over these code
  points. The builtins are modelled on them: \<open>str.isspace\<close>, and with it
  \<open>str.strip\<close>, holds for U+0009 to U+000D, U+001C to U+0020, U+0085 and U+00A0;
  \<open>str.isdigit\<close> holds for the ten ASCII digits and the superscripts U+00B2, U+00B3 and
  U+00B9, which \<open>int\<close> refuses. The whitespace that \<open>int\<close> skips is narrower than
  that of \<open>str.strip\<close>: U+001C to U+001F are not skipped. Conversions between \<open>int\<close>
  and \<open>str\<close> raise \<open>ValueError\<close> beyond \<open>sys.get_int_max_str_digits()\<close> digits, 4300
  unless the interpreter is configured otherwise.
\<close>

definition newline :: char where
  "newline = CHR 0x0A"

definition isspace :: "char \<Rightarrow> bool" where
  "isspace ch = (ch \<in> set [CHR 0x09, CHR 0x0A, CHR 0x0B, CHR 0x0C, CHR 0x0D, CHR 0x1C,
                             CHR 0x1D, CHR 0x1E, CHR 0x1F, CHR 0x20, CHR 0x85, CHR 0xA0])"

definition strip :: "string \<Rightarrow> string" where
  "strip s = rev (dropWhile isspace (rev (dropWhile isspace s)))"

text \<open>\<open>s.lstrip('-')\<close>, \<open>s.startswith(c)\<close>, \<open>s.endswith(c)\<close> and the slice \<open>s[1:-1]\<close>.\<close>

definition lstrip_minus :: "string \<Rightarrow> string" where
  "lstrip_minus s = dropWhile (\<lambda>ch. ch = CHR ''-'') s"

definition startswith :: "string \<Rightarrow> char \<Rightarrow> bool" where
  "startswith s ch = (case s of [] \<Rightarrow> False | x # _ \<Rightarrow> x = ch)"

definition endswith :: "string \<Rightarrow> char \<Rightarrow> bool" where
  "endswith s ch = (s \<noteq> [] \<and> last s = ch)"

definition slice_inner :: "string \<Rightarrow> string" where
  "slice_inner s = butlast (tl s)"

text \<open>\<open>s.split(sep)\<close> for a separator of one character: always at least one part.\<close>

fun split_on :: "char \<Rightarrow> string \<Rightarrow> string list" where
  "split_on sep [] = [[]]"
| "split_on sep (ch # cs) =
     (if ch = sep then [] # split_on sep cs
      else (case split_on sep cs of [] \<Rightarrow> [[ch]] | p # ps \<Rightarrow> (ch # p) # ps))"

text \<open>Iterating over a text file: each line with its terminating newline.\<close>

fun file_lines :: "string \<Rightarrow> string list" where
  "file_lines [] = []"
| "file_lines (ch # cs) =
     (if ch = newline then [ch] # file_lines cs
      else (case file_lines cs of [] \<Rightarrow> [[ch]] | l # ls \<Rightarrow> (ch # l) # ls))"

text \<open>\<open>[line.strip() for line in file if line.strip()]\<close>\<close>

definition stripped_lines :: "string \<Rightarrow> string list" where
  "stripped_lines text = map strip (filter (\<lambda>line. strip line \<noteq> []) (file_lines text))"

definition is_ascii_digit :: "char \<Rightarrow> bool" where
  "is_ascii_digit ch = (ch \<in> set ''0123456789'')"

definition digit_value :: "char \<Rightarrow> int" where
  "digit_value ch = of_char ch - 48"

definition digit_char :: "nat \<Rightarrow> char" where
  "digit_char d = char_of (48 + d)"

text \<open>\<open>str.isdigit\<close>: not empty, and every character a digit.\<close>

definition isdigit :: "string \<Rightarrow> bool" where
  "isdigit s = (s \<noteq> [] \<and>
     list_all (\<lambda>ch. is_ascii_digit ch \<or> ch \<in> set [CHR 0xB2, CHR 0xB3, CHR 0xB9]) s)"

text \<open>
  The limit on the digits of a conversion between \<open>int\<close> and \<open>str\<close>.
\<close>

definition max_str_digits :: nat where
  "max_str_digits = 4300"

text \<open>
  \<open>int(s)\<close>: surrounding whitespace is dropped (the ASCII whitespace U+0009 to U+000D
  and U+0020, and the other whitespace above U+007F, which is first replaced by a
  space), one sign is allowed, then come decimal digits, where single underscores may
  separate digits. More than \<open>max_str_digits\<close> digits are refused; underscores and the sign
  do not count, leading zeros do. \<open>None\<close> is \<open>ValueError\<close>.
\<close>

definition int_isspace :: "char \<Rightarrow> bool" where
  "int_isspace ch = (ch \<in> set [CHR 0x09, CHR 0x0A, CHR 0x0B, CHR 0x0C, CHR 0x0D, CHR 0x20,
                                 CHR 0x85, CHR 0xA0])"

definition int_strip :: "string \<Rightarrow> string" where
  "int_strip s = rev (dropWhile int_isspace (rev (dropWhile int_isspace s)))"

fun digits_ok :: "string \<Rightarrow> bool" where
  "digits_ok [] = False"
| "digits_ok [ch] = is_ascii_digit ch"
| "digits_ok (ch # d # cs) =
     (is_ascii_digit ch \<and> (if d = CHR ''_'' then digits_ok cs else digits_ok (d # cs)))"

definition digits_value :: "string \<Rightarrow> int" where
  "digits_value s = foldl (\<lambda>acc ch. 10 * acc + digit_value ch) 0
                      (filter (\<lambda>ch. ch \<noteq> CHR ''_'') s)"

definition int_py :: "string \<Rightarrow> int option" where
  "int_py s =
     (let t = int_strip s;
          (sign, body) = (case t of
                            [] \<Rightarrow> (1, t)
                          | ch # cs \<Rightarrow> if ch = CHR ''-'' then (- 1, cs)
                                       else if ch = CHR ''+'' then (1, cs) else (1, t))
      in if \<not> digits_ok body then None
         else if max_str_digits < length (filter (\<lambda>ch. ch \<noteq> CHR ''_'') body) then None
         else Some (sign * digits_value body))"

text \<open>
  \<open>str(n)\<close> for an integer, as the f-strings of the writers produce it: the decimal
  digits of the absolute value after the sign, and \<open>ValueError\<close> (\<open>None\<close>) when there are
  more than \<open>max_str_digits\<close> digits.
\<close>

fun str_nat :: "nat \<Rightarrow> string" where
  "str_nat n = (if n < 10 then [digit_char n] else str_nat (n div 10) @ [digit_char (n mod 10)])"

definition str_py :: "int \<Rightarrow> string option" where
  "str_py n =
     (let digits = str_nat (nat \<bar>n\<bar>)
      in if max_str_digits < length digits then None
         else Some (if n < 0 then CHR ''-'' # digits else digits))"

section \<open>The readers and writers\<close>

text \<open>
  The readers take the text of the file, as the text mode of \<open>open\<close> delivers it (every
  line ending is a newline). Every exception raised inside the \<open>try\<close> block is caught
  and replaced by the \<open>ValueError\<close> of a wrong format: \<open>FormatError\<close>.
\<close>

text \<open>\<open>readFile\<close> of src/code: the body of the loop over \<open>lines[2:]\<close>.\<close>

definition readFile_entry :: "int \<Rightarrow> int \<Rightarrow> string \<Rightarrow> matrix \<Rightarrow> error + matrix" where
  "readFile_entry rows' cols' line matrix' =
     (if \<not> startswith line CHR ''('' \<or> \<not> endswith line CHR '')'' then Inl FormatError
      else
        let parts = split_on CHR '','' (slice_inner line)
        in if length parts \<noteq> 3 then Inl FormatError
           else (case (int_py (parts ! 0), int_py (parts ! 1), int_py (parts ! 2)) of
                   (Some row, Some col, Some v) \<Rightarrow>
                     if row \<ge> rows' \<or> col \<ge> cols' then Inl FormatError
                     else Inr (setElement_code matrix' row col v)
                 | _ \<Rightarrow> Inl FormatError))"

definition readFile :: "string \<Rightarrow> error + matrix" where
  "readFile text =
     (let lines = stripped_lines text
      in if length lines < 2 then Inl FormatError
         else
           let rows_line = split_on CHR ''='' (lines ! 0);
               cols_line = split_on CHR ''='' (lines ! 1)
           in if length rows_line \<noteq> 2 \<or> length cols_line \<noteq> 2 then Inl FormatError
              else (case (int_py (rows_line ! 1), int_py (cols_line ! 1)) of
                      (Some rows', Some cols') \<Rightarrow>
                        for_each (drop 2 lines) (readFile_entry rows' cols')
                          (SparseMatrix_code rows' cols')
                    | _ \<Rightarrow> Inl FormatError))"

text \<open>\<open>load_from_file\<close> of src/integral-file: the loop body writes into \<open>data\<close> directly.\<close>

definition load_entry :: "string \<Rightarrow> dict \<Rightarrow> error + dict" where
  "load_entry line data' =
     (if \<not> startswith line CHR ''('' \<or> \<not> endswith line CHR '')'' then Inl FormatError
      else
        let entry = split_on CHR '','' (slice_inner line)
        in if length entry \<noteq> 3 then Inl FormatError
           else
             let row = strip (entry ! 0); col = strip (entry ! 1); v = strip (entry ! 2)
             in if \<not> isdigit row \<or> \<not> isdigit col then Inl FormatError
                else if \<not> isdigit (lstrip_minus v) then Inl FormatError
                else (case (int_py row, int_py col, int_py v) of
                        (Some r, Some c, Some x) \<Rightarrow> Inr (DAList.update (r, c) x data')
                      | _ \<Rightarrow> Inl FormatError))"

text \<open>
  \<open>lines[0].split('=')[1]\<close> raises \<open>IndexError\<close> when there is no such line or no
  second part; that exception is caught like the others.
\<close>

definition header_value :: "string list \<Rightarrow> nat \<Rightarrow> int option" where
  "header_value lines n =
     (if n < length lines then
        (let parts = split_on CHR ''='' (lines ! n)
         in if 1 < length parts then int_py (strip (parts ! 1)) else None)
      else None)"

definition load_from_file :: "string \<Rightarrow> error + matrix" where
  "load_from_file text =
     (let lines = stripped_lines text
      in case header_value lines 0 of
           None \<Rightarrow> Inl FormatError
         | Some rows' \<Rightarrow>
            (case header_value lines 1 of
               None \<Rightarrow> Inl FormatError
             | Some cols' \<Rightarrow>
                (case for_each (drop 2 lines) load_entry DAList.empty of
                   Inl e \<Rightarrow> Inl FormatError
                 | Inr data' \<Rightarrow> Inr (SparseMatrix_integral rows' cols' (Some data')))))"

text \<open>
  \<open>writeToFile\<close> and \<open>save_to_file\<close> write the same text; the model returns it.
  Formatting a number can raise \<open>ValueError\<close>, which neither writer catches: the model
  returns \<open>None\<close> then.
\<close>

definition entry_line :: "coord \<times> int \<Rightarrow> string option" where
  "entry_line kv =
     (case kv of ((row, col), v) \<Rightarrow>
        (case (str_py row, str_py col, str_py v) of
           (Some r, Some c, Some x) \<Rightarrow> Some (''('' @ r @ '', '' @ c @ '', '' @ x @ '')'' @ [newline])
         | _ \<Rightarrow> None))"

definition writeToFile :: "matrix \<Rightarrow> string option" where
  "writeToFile self =
     (case (str_py (rows self), str_py (cols self), those (map entry_line (items (data self)))) of
        (Some r, Some c, Some entries) \<Rightarrow>
          Some (''rows='' @ r @ [newline] @ ''cols='' @ c @ [newline] @ concat entries)
      | _ \<Rightarrow> None)"

definition save_to_file :: "matrix \<Rightarrow> string option" where
  "save_to_file self =
     (case (str_py (rows self), str_py (cols self), those (map entry_line (items (data self)))) of
        (Some r, Some c, Some entries) \<Rightarrow>
          Some (''rows='' @ r @ [newline] @ ''cols='' @ c @ [newline] @ concat entries)
      | _ \<Rightarrow> None)"

section \<open>Notions of the specification and of the proofs\<close>

text \<open>
  The value a matrix has at a coordinate is the stored value, or 0 when the coordinate
  is absent: \<open>dict_get (data m) (r, c) 0\<close>. A value that is zero leaves no entry behind:
  \<open>nonzero\<close> is the entry of the dictionary for a value.
\<close>

definition nonzero :: "int \<Rightarrow> int option" where
  "nonzero x = (if x = 0 then None else Some x)"

text \<open>A dictionary without a stored zero.\<close>

definition no_zero :: "dict \<Rightarrow> bool" where
  "no_zero d = (\<forall>pos. DAList.lookup d pos \<noteq> Some 0)"

text \<open>
  The matrix product of the specification at \<open>(i, j)\<close>: the sum over
  \<open>0 \<le> k < A.cols\<close> of \<open>A.get(i, k) * B.get(k, j)\<close>, where \<open>get\<close> is the stored
  value or 0 (what \<open>getElement\<close> of either implementation returns inside the shape).
\<close>

definition product_sum :: "matrix \<Rightarrow> matrix \<Rightarrow> int \<Rightarrow> int \<Rightarrow> int" where
  "product_sum A B i j =
     (\<Sum>k = 0..<cols A. dict_get (data A) (i, k) 0 * dict_get (data B) (k, j) 0)"

text \<open>
  What the entry-driven multiplication has added to cell \<open>(i', j')\<close> once the stored
  entries \<open>xs\<close> of the left operand are processed.
\<close>

definition row_terms :: "matrix \<Rightarrow> int \<Rightarrow> int \<Rightarrow> (coord \<times> int) list \<Rightarrow> int" where
  "row_terms B i' j' xs =
     sum_list (map (\<lambda>((i, k), v). if i = i' then v * dict_get (data B) (k, j') 0 else 0) xs)"

text \<open>
  The two halves of the invariants that the readers establish: no stored zero and no
  key at or beyond the shape (\<open>upper_ok\<close>), and no negative key (\<open>lower_ok\<close>).
\<close>

definition upper_ok :: "matrix \<Rightarrow> bool" where
  "upper_ok m = list_all (\<lambda>((r, c), v). r < rows m \<and> c < cols m \<and> v \<noteq> 0) (items (data m))"

definition lower_ok :: "matrix \<Rightarrow> bool" where
  "lower_ok m = list_all (\<lambda>((r, c), v). 0 \<le> r \<and> 0 \<le> c) (items (data m))"

text \<open>
  The decimal numeral of an integer, whatever its length, and the integers whose
  numeral is within the limit of the conversions.
\<close>

definition decimal :: "int \<Rightarrow> string" where
  "decimal n = (if n < 0 then CHR ''-'' # str_nat (nat \<bar>n\<bar>) else str_nat (nat \<bar>n\<bar>))"

definition fits :: "int \<Rightarrow> bool" where
  "fits n = (length (str_nat (nat \<bar>n\<bar>)) \<le> max_str_digits)"

text \<open>
  A matrix is \<open>printable\<close> when its shape, its keys and its values are all within the
  limit.
\<close>

definition printable :: "matrix \<Rightarrow> bool" where
  "printable m = (fits (rows m) \<and> fits (cols m) \<and>
     list_all (\<lambda>((r, c), v). fits r \<and> fits c \<and> fits v) (items (data m)))"

text \<open>
  The text the writers produce, line by line: a line is \<open>clean\<close> when stripping it
  changes nothing and it holds no newline.
\<close>

definition clean :: "string \<Rightarrow> bool" where
  "clean l = (l \<noteq> [] \<and> newline \<notin> set l \<and> \<not> isspace (hd l) \<and> \<not> isspace (last l))"

definition header_line :: "string \<Rightarrow> int \<Rightarrow> string" where
  "header_line key n = key @ ''='' @ decimal n"

definition entry_body :: "coord \<times> int \<Rightarrow> string" where
  "entry_body kv =
     (case kv of ((row, col), v) \<Rightarrow>
        ''('' @ decimal row @ '', '' @ decimal col @ '', '' @ decimal v @ '')'')"

definition text_lines :: "matrix \<Rightarrow> string list" where
  "text_lines m =
     header_line ''rows'' (rows m) # header_line ''cols'' (cols m)
       # map entry_body (items (data m))"

definition text_of :: "matrix \<Rightarrow> string" where
  "text_of m = concat (map (\<lambda>l. l @ [newline]) (text_lines m))"

section \<open>Example matrices and texts\<close>

definition m_one :: matrix where
  "m_one = \<lparr>rows = 2, cols = 2, data = DAList.update (0, 1) 7 DAList.empty\<rparr>"

definition m_diag :: matrix where
  "m_diag = \<lparr>rows = 2, cols = 2,
              data = DAList.update (1, 1) 2 (DAList.update (0, 0) 1 DAList.empty)\<rparr>"

definition m_neg :: matrix where
  "m_neg = \<lparr>rows = 2, cols = 2, data = DAList.update (0, 0) (- 1) DAList.empty\<rparr>"

definition m_zero :: matrix where
  "m_zero = \<lparr>rows = 1, cols = 1, data = DAList.update (0, 0) 0 DAList.empty\<rparr>"

definition text_zero :: string where
  "text_zero = ''rows=1'' @ [newline] @ ''cols=1'' @ [newline] @ ''(0,0,0)'' @ [newline]"

definition text_oob :: string where
  "text_oob = ''rows=1'' @ [newline] @ ''cols=1'' @ [newline] @ ''(1,0,5)'' @ [newline]"

definition text_neg :: string where
  "text_neg = ''rows=2'' @ [newline] @ ''cols=2'' @ [newline] @ ''(-1, 0, 5)'' @ [newline]"

definition m_oob :: matrix where
  "m_oob = \<lparr>rows = 1, cols = 1, data = DAList.update (1, 0) 5 DAList.empty\<rparr>"

definition m_negkey :: matrix where
  "m_negkey = \<lparr>rows = 2, cols = 2, data = DAList.update (- 1, 0) 5 DAList.empty\<rparr>"

text \<open>A value with 4301 digits, and the 1 by 1 matrix that stores it.\<close>

definition huge :: int where
  "huge = 10 ^ max_str_digits"

definition m_huge :: matrix where
  "m_huge = \<lparr>rows = 1, cols = 1, data = DAList.update (0, 0) huge DAList.empty\<rparr>"

section \<open>The operators on a store of objects\<close>

text \<open>
  Python passes objects by reference, and \<open>setElement\<close> and the dictionary statements
  mutate the object they are given. To say that an operator leaves its operands alone,
  the operators are modelled once more on an explicit store: dictionaries and matrix
  objects live at addresses, a matrix object holds the address of its dictionary, a
  new object gets the next free address, and a write replaces the dictionary at one
  address. The loops over \<open>self.data\<close> and \<open>other.data\<close> run over the entries the
  dictionary holds when the loop starts.
\<close>

type_synonym addr = nat

record mobj =
  o_rows :: int
  o_cols :: int
  o_data :: addr

record store =
  dict_store :: "dict list"
  matrix_store :: "mobj list"

definition alloc_dict :: "store \<Rightarrow> dict \<Rightarrow> store \<times> addr" where
  "alloc_dict h d = (h\<lparr>dict_store := dict_store h @ [d]\<rparr>, length (dict_store h))"

definition alloc_matrix :: "store \<Rightarrow> mobj \<Rightarrow> store \<times> addr" where
  "alloc_matrix h ob = (h\<lparr>matrix_store := matrix_store h @ [ob]\<rparr>, length (matrix_store h))"

definition write_dict :: "store \<Rightarrow> addr \<Rightarrow> dict \<Rightarrow> store" where
  "write_dict h a d = h\<lparr>dict_store := (dict_store h)[a := d]\<rparr>"

definition rows_of :: "store \<Rightarrow> addr \<Rightarrow> int" where
  "rows_of h self = o_rows (matrix_store h ! self)"

definition cols_of :: "store \<Rightarrow> addr \<Rightarrow> int" where
  "cols_of h self = o_cols (matrix_store h ! self)"

definition data_of :: "store \<Rightarrow> addr \<Rightarrow> addr" where
  "data_of h self = o_data (matrix_store h ! self)"

definition dict_at :: "store \<Rightarrow> addr \<Rightarrow> dict" where
  "dict_at h a = dict_store h ! a"

text \<open>
  A reference is valid when the matrix object and its dictionary exist; the matrix a
  valid reference stands for is \<open>matrix_at\<close>.
\<close>

definition valid_ref :: "store \<Rightarrow> addr \<Rightarrow> bool" where
  "valid_ref h self =
     (self < length (matrix_store h) \<and> data_of h self < length (dict_store h))"

definition matrix_at :: "store \<Rightarrow> addr \<Rightarrow> matrix" where
  "matrix_at h self =
     \<lparr>rows = rows_of h self, cols = cols_of h self, data = dict_at h (data_of h self)\<rparr>"

text \<open>
  A later store extends an earlier one when every object of the earlier store is still
  there, unchanged, at its address.
\<close>

definition store_extends :: "store \<Rightarrow> store \<Rightarrow> bool" where
  "store_extends h h' =
     (take (length (dict_store h)) (dict_store h') = dict_store h
      \<and> take (length (matrix_store h)) (matrix_store h') = matrix_store h)"

text \<open>
  While an operator runs, it owns the dictionary it has made since it started: the
  store extends the one of the start, and the dictionary lies beyond it.
\<close>

definition owns :: "store \<Rightarrow> store \<Rightarrow> addr \<Rightarrow> bool" where
  "owns h0 h a =
     (store_extends h0 h \<and> length (dict_store h0) \<le> a \<and> a < length (dict_store h))"

text \<open>
  The relation between the store of a running operator and the value the pure model
  has reached: the result object (or the dictionary under construction) is owned and
  holds that value.
\<close>

definition result_is :: "store \<Rightarrow> store \<Rightarrow> addr \<Rightarrow> matrix \<Rightarrow> bool" where
  "result_is h0 h res m =
     (owns h0 h (data_of h res) \<and> res < length (matrix_store h) \<and> matrix_at h res = m)"

definition dict_is :: "store \<Rightarrow> store \<Rightarrow> addr \<Rightarrow> dict \<Rightarrow> bool" where
  "dict_is h0 h a d = (owns h0 h a \<and> dict_at h a = d)"

text \<open>
  A loop over a store whose body may raise: the store at the moment of the exception
  is kept.
\<close>

fun for_each_store ::
  "'a list \<Rightarrow> ('a \<Rightarrow> store \<Rightarrow> store \<times> error option) \<Rightarrow> store \<Rightarrow> store \<times> error option"
where
  "for_each_store [] body h = (h, None)"
| "for_each_store (x # xs) body h =
     (case body x h of
        (h', Some e) \<Rightarrow> (h', Some e)
      | (h', None) \<Rightarrow> for_each_store xs body h')"

subsection \<open>src/code on the store\<close>

definition SparseMatrix_code_store :: "store \<Rightarrow> int \<Rightarrow> int \<Rightarrow> store \<times> addr" where
  "SparseMatrix_code_store h r c =
     (let (h, d) = alloc_dict h DAList.empty
      in alloc_matrix h \<lparr>o_rows = r, o_cols = c, o_data = d\<rparr>)"

definition getElement_code_store :: "store \<Rightarrow> addr \<Rightarrow> int \<Rightarrow> int \<Rightarrow> int" where
  "getElement_code_store h self row col = dict_get (dict_at h (data_of h self)) (row, col) 0"

definition setElement_code_store :: "store \<Rightarrow> addr \<Rightarrow> int \<Rightarrow> int \<Rightarrow> int \<Rightarrow> store" where
  "setElement_code_store h self row col v =
     (let a = data_of h self; d = dict_at h a
      in if v = 0 then
           (if dict_in (row, col) d then write_dict h a (DAList.delete (row, col) d) else h)
         else write_dict h a (DAList.update (row, col) v d))"

definition add_code_store :: "store \<Rightarrow> addr \<Rightarrow> addr \<Rightarrow> store \<times> (error + addr)" where
  "add_code_store h self other =
     (if rows_of h self \<noteq> rows_of h other \<or> cols_of h self \<noteq> cols_of h other
      then (h, Inl DimensionMismatch)
      else
        let (h, result) = SparseMatrix_code_store h (rows_of h self) (cols_of h self);
            h = foldl (\<lambda>h (pos, v).
                   setElement_code_store h result (fst pos) (snd pos)
                     (v + getElement_code_store h other (fst pos) (snd pos)))
                  h (items (dict_at h (data_of h self)));
            h = foldl (\<lambda>h (pos, v).
                   if \<not> dict_in pos (dict_at h (data_of h self))
                   then setElement_code_store h result (fst pos) (snd pos) v
                   else h)
                  h (items (dict_at h (data_of h other)))
        in (h, Inr result))"

definition subtract_code_store :: "store \<Rightarrow> addr \<Rightarrow> addr \<Rightarrow> store \<times> (error + addr)" where
  "subtract_code_store h self other =
     (if rows_of h self \<noteq> rows_of h other \<or> cols_of h self \<noteq> cols_of h other
      then (h, Inl DimensionMismatch)
      else
        let (h, result) = SparseMatrix_code_store h (rows_of h self) (cols_of h self);
            h = foldl (\<lambda>h (pos, v).
                   setElement_code_store h result (fst pos) (snd pos)
                     (v - getElement_code_store h other (fst pos) (snd pos)))
                  h (items (dict_at h (data_of h self)));
            h = foldl (\<lambda>h (pos, v).
                   if \<not> dict_in pos (dict_at h (data_of h self))
                   then setElement_code_store h result (fst pos) (snd pos) (- v)
                   else h)
                  h (items (dict_at h (data_of h other)))
        in (h, Inr result))"

definition total_code_store :: "store \<Rightarrow> addr \<Rightarrow> addr \<Rightarrow> int \<Rightarrow> int \<Rightarrow> int" where
  "total_code_store h self other i j =
     foldl (\<lambda>total k. total + getElement_code_store h self i k * getElement_code_store h other k j)
       0 (range_py (cols_of h self))"

definition multiply_code_store :: "store \<Rightarrow> addr \<Rightarrow> addr \<Rightarrow> store \<times> (error + addr)" where
  "multiply_code_store h self other =
     (if cols_of h self \<noteq> rows_of h other then (h, Inl DimensionMismatch)
      else
        let (h, result) = SparseMatrix_code_store h (rows_of h self) (cols_of h other);
            h = foldl (\<lambda>h i.
                  foldl (\<lambda>h j.
                    let total = total_code_store h self other i j
                    in if total \<noteq> 0 then setElement_code_store h result i j total else h)
                  h (range_py (cols_of h other)))
                h (range_py (rows_of h self))
        in (h, Inr result))"

subsection \<open>src/integral-file on the store\<close>

text \<open>
  \<open>__init__\<close> keeps the dictionary it is given (the same object) unless it is \<open>None\<close> or
  empty; then it makes a new one.
\<close>

definition SparseMatrix_integral_store ::
  "store \<Rightarrow> int \<Rightarrow> int \<Rightarrow> addr option \<Rightarrow> store \<times> addr" where
  "SparseMatrix_integral_store h r c d =
     (let (h, a) = (case d of
                      None \<Rightarrow> alloc_dict h DAList.empty
                    | Some a \<Rightarrow> if items (dict_at h a) = [] then alloc_dict h DAList.empty
                               else (h, a))
      in alloc_matrix h \<lparr>o_rows = r, o_cols = c, o_data = a\<rparr>)"

definition getElement_integral_store :: "store \<Rightarrow> addr \<Rightarrow> int \<Rightarrow> int \<Rightarrow> error + int" where
  "getElement_integral_store h self row col =
     (if row < 0 \<or> row \<ge> rows_of h self \<or> col < 0 \<or> col \<ge> cols_of h self
      then Inl IndexOutOfBounds
      else Inr (dict_get (dict_at h (data_of h self)) (row, col) 0))"

text \<open>\<open>self.data.copy()\<close>: a new dictionary with the same entries.\<close>

definition dict_copy :: "store \<Rightarrow> addr \<Rightarrow> store \<times> addr" where
  "dict_copy h a = alloc_dict h (dict_at h a)"

definition merge_entry_store ::
  "(int \<Rightarrow> int \<Rightarrow> int) \<Rightarrow> (int \<Rightarrow> int) \<Rightarrow> addr \<Rightarrow> store \<Rightarrow> coord \<times> int \<Rightarrow> store" where
  "merge_entry_store combine fresh result_data h kv =
     (case kv of (key, v) \<Rightarrow>
        (case DAList.lookup (dict_at h result_data) key of
           Some old \<Rightarrow>
             let h = write_dict h result_data
                       (DAList.update key (combine old v) (dict_at h result_data))
             in if dict_get (dict_at h result_data) key 0 = 0
                then write_dict h result_data (DAList.delete key (dict_at h result_data))
                else h
         | None \<Rightarrow>
             write_dict h result_data (DAList.update key (fresh v) (dict_at h result_data))))"

definition add_integral_store :: "store \<Rightarrow> addr \<Rightarrow> addr \<Rightarrow> store \<times> (error + addr)" where
  "add_integral_store h self other =
     (if rows_of h self \<noteq> rows_of h other \<or> cols_of h self \<noteq> cols_of h other
      then (h, Inl DimensionMismatch)
      else
        let (h, result_data) = dict_copy h (data_of h self);
            h = foldl (merge_entry_store (\<lambda>old v. old + v) (\<lambda>v. v) result_data)
                  h (items (dict_at h (data_of h other)));
            (h, result) = SparseMatrix_integral_store h (rows_of h self) (cols_of h self)
                            (Some result_data)
        in (h, Inr result))"

definition subtract_integral_store :: "store \<Rightarrow> addr \<Rightarrow> addr \<Rightarrow> store \<times> (error + addr)" where
  "subtract_integral_store h self other =
     (if rows_of h self \<noteq> rows_of h other \<or> cols_of h self \<noteq> cols_of h other
      then (h, Inl DimensionMismatch)
      else
        let (h, result_data) = dict_copy h (data_of h self);
            h = foldl (merge_entry_store (\<lambda>old v. old - v) (\<lambda>v. - v) result_data)
                  h (items (dict_at h (data_of h other)));
            (h, result) = SparseMatrix_integral_store h (rows_of h self) (cols_of h self)
                            (Some result_data)
        in (h, Inr result))"

definition accumulate_store ::
  "addr \<Rightarrow> addr \<Rightarrow> int \<Rightarrow> int \<Rightarrow> int \<Rightarrow> int \<Rightarrow> store \<Rightarrow> store \<times> error option" where
  "accumulate_store other result_data i k val1 j h =
     (case getElement_integral_store h other k j of
        Inl e \<Rightarrow> (h, Some e)
      | Inr val2 \<Rightarrow>
          if val2 \<noteq> 0 then
            let result_key = (i, j);
                h = write_dict h result_data
                      (DAList.update result_key
                         (dict_get (dict_at h result_data) result_key 0 + val1 * val2)
                         (dict_at h result_data))
            in if dict_get (dict_at h result_data) result_key 0 = 0
               then (write_dict h result_data
                       (DAList.delete result_key (dict_at h result_data)), None)
               else (h, None)
          else (h, None))"

definition multiply_integral_store :: "store \<Rightarrow> addr \<Rightarrow> addr \<Rightarrow> store \<times> (error + addr)" where
  "multiply_integral_store h self other =
     (if cols_of h self \<noteq> rows_of h other then (h, Inl DimensionMismatch)
      else
        let result_rows = rows_of h self; result_cols = cols_of h other;
            (h, result_data) = alloc_dict h DAList.empty
        in case for_each_store (items (dict_at h (data_of h self)))
                  (\<lambda>((i, k), val1).
                     for_each_store (range_py result_cols)
                       (accumulate_store other result_data i k val1))
                  h
           of (h, Some e) \<Rightarrow> (h, Inl e)
            | (h, None) \<Rightarrow>
                (let (h, result) = SparseMatrix_integral_store h result_rows result_cols
                                     (Some result_data)
                 in (h, Inr result)))"

text \<open>
  A store for the examples: \<open>m_diag\<close> at address 0, \<open>m_neg\<close> at address 1 and an
  empty 1 by 3 matrix at address 2.
\<close>

definition store_example :: store where
  "store_example =
     \<lparr>dict_store = [data m_diag, data m_neg, DAList.empty],
      matrix_store = [\<lparr>o_rows = 2, o_cols = 2, o_data = 0\<rparr>,
                      \<lparr>o_rows = 2, o_cols = 2, o_data = 1\<rparr>,
                      \<lparr>o_rows = 1, o_cols = 3, o_data = 2\<rparr>]\<rparr>"

text \<open>The operators on the store, each with the operator on values it stands for.\<close>

definition operators ::
  "((store \<Rightarrow> addr \<Rightarrow> addr \<Rightarrow> store \<times> (error + addr))
    \<times> (matrix \<Rightarrow> matrix \<Rightarrow> error + matrix)) list" where
  "operators =
     [(add_code_store, add_code), (subtract_code_store, subtract_code),
      (multiply_code_store, multiply_code), (add_integral_store, add_integral),
      (subtract_integral_store, subtract_integral),
      (multiply_integral_store, multiply_integral)]"

section \<open>Element access\<close>

text \<open>
  Claim C7 (zero elision). For every matrix and every coordinate inside its shape,
  setting the value 0 there leaves a matrix in which reading the coordinate gives 0 and
  the coordinate is absent from the dictionary, whether or not it was stored before.
  This holds for \<open>setElement\<close> of both implementations.
\<close>

theorem set_zero_elides:
  assumes "in_bounds m r c"
  shows "getElement_code (setElement_code m r c 0) r c = 0
       \<and> DAList.lookup (data (setElement_code m r c 0)) (r, c) = None
       \<and> (\<exists>m'. setElement_integral m r c 0 = Inr m'
              \<and> getElement_integral m' r c = Inr 0
              \<and> DAList.lookup (data m') (r, c) = None)"
  using assms
  by (auto simp: in_bounds_def setElement_code_def getElement_code_def dict_get_def dict_in_def
      setElement_integral_def getElement_integral_def out_of_range_def)

text \<open>
  The matrix \<open>m_one\<close> stores 7 at (0, 1); setting 0 there removes the entry.
\<close>

theorem set_zero_elides_witness:
  "in_bounds m_one 0 1 \<and> DAList.lookup (data m_one) (0, 1) = Some 7
   \<and> getElement_code (setElement_code m_one 0 1 0) 0 1 = 0
   \<and> DAList.lookup (data (setElement_code m_one 0 1 0)) (0, 1) = None
   \<and> (\<exists>m'. setElement_integral m_one 0 1 0 = Inr m'
          \<and> getElement_integral m' 0 1 = Inr 0
          \<and> DAList.lookup (data m') (0, 1) = None)"
proof -
  have b: "in_bounds m_one 0 1" by (simp add: in_bounds_def m_one_def)
  have s: "DAList.lookup (data m_one) (0, 1) = Some 7" by (simp add: m_one_def)
  show ?thesis using b s set_zero_elides [OF b] by simp
qed

text \<open>
  Claim C2 says that reading or writing outside the shape fails with
  \<open>IndexOutOfBounds\<close> and never silently returns 0 or silently stores. In src/code the
  accessors do no validation: on an empty 1 by 1 matrix, reading (1, 0) returns 0 and
  writing 5 at (1, 0) stores the entry.
\<close>

theorem get_set_unvalidated_counterexample:
  "getElement_code (SparseMatrix_code 1 1) 1 0 = 0
   \<and> DAList.lookup (data (setElement_code (SparseMatrix_code 1 1) 1 0 5)) (1, 0) = Some 5"
  by (simp add: getElement_code_def setElement_code_def SparseMatrix_code_def dict_get_def)

text \<open>
  Claim C2, amended. In src/integral-file, for every matrix and every coordinate with
  \<open>row < 0\<close>, \<open>row \<ge> rows\<close>, \<open>col < 0\<close> or \<open>col \<ge> cols\<close>, both \<open>getElement\<close> and
  \<open>setElement\<close> fail with \<open>IndexOutOfBounds\<close>, and for every coordinate inside the shape
  \<open>getElement\<close> returns the stored value, or 0 when the coordinate is absent. In src/code
  the accessors validate nothing: for every coordinate \<open>getElement\<close> returns the stored
  value, or 0 when the coordinate is absent, and \<open>setElement\<close> stores a non-zero value
  and removes the entry for a zero value.
\<close>

theorem get_set_bounds:
  "((r < 0 \<or> r \<ge> rows m \<or> c < 0 \<or> c \<ge> cols m) \<longrightarrow>
      getElement_integral m r c = Inl IndexOutOfBounds
      \<and> setElement_integral m r c v = Inl IndexOutOfBounds)
   \<and> (0 \<le> r \<and> r < rows m \<and> 0 \<le> c \<and> c < cols m \<longrightarrow>
      getElement_integral m r c =
        Inr (case DAList.lookup (data m) (r, c) of None \<Rightarrow> 0 | Some x \<Rightarrow> x))
   \<and> getElement_code m r c = (case DAList.lookup (data m) (r, c) of None \<Rightarrow> 0 | Some x \<Rightarrow> x)
   \<and> DAList.lookup (data (setElement_code m r c v)) (r, c) = (if v = 0 then None else Some v)"
  by (auto simp: getElement_integral_def setElement_integral_def out_of_range_def
      getElement_code_def setElement_code_def dict_get_def dict_in_def)

text \<open>
  On \<open>m_one\<close> (2 by 2), row 2 is outside the shape and (0, 1) is inside.
\<close>

theorem get_set_bounds_witness:
  "getElement_integral m_one 2 0 = Inl IndexOutOfBounds
   \<and> setElement_integral m_one 2 0 5 = Inl IndexOutOfBounds
   \<and> getElement_integral m_one 0 1 = Inr 7
   \<and> getElement_code m_one 2 0 = 0"
  using get_set_bounds [of 2 m_one 0 5] get_set_bounds [of 0 m_one 1 5]
  by (simp add: m_one_def)

section \<open>Dictionaries and the loops over them\<close>

text \<open>
  The dictionary of a matrix is read through \<open>DAList.lookup\<close>; the lemmas below say what
  each loop of the operators leaves in it.
\<close>

lemma lookup_items: "DAList.lookup d = map_of (items d)"
  by (simp add: items_def DAList.lookup.rep_eq)

lemma distinct_items: "distinct (map fst (items d))"
  by (simp add: items_def)

lemma stored_iff:
  "((k, v) \<in> set (items d)) = (DAList.lookup d k = Some v)"
  using distinct_items [of d] by (simp add: lookup_items)

lemma list_all_items:
  "list_all (\<lambda>((r, c), v). P r c v) (items d) \<longleftrightarrow>
     (\<forall>r c v. DAList.lookup d (r, c) = Some v \<longrightarrow> P r c v)"
proof -
  have "list_all (\<lambda>((r, c), v). P r c v) (items d) \<longleftrightarrow>
      (\<forall>r c v. ((r, c), v) \<in> set (items d) \<longrightarrow> P r c v)"
    unfolding list_all_iff by fastforce
  then show ?thesis by (simp only: stored_iff)
qed

lemma dict_get_lookup:
  "dict_get d pos 0 = (case DAList.lookup d pos of None \<Rightarrow> 0 | Some v \<Rightarrow> v)"
  by (simp add: dict_get_def)

lemma no_zeroD: "no_zero d \<Longrightarrow> DAList.lookup d pos \<noteq> Some 0"
  unfolding no_zero_def by blast

lemma lookup_no_zero: "no_zero d \<Longrightarrow> DAList.lookup d pos = nonzero (dict_get d pos 0)"
  using no_zeroD [of d pos] by (auto simp: dict_get_def nonzero_def split: option.splits)

lemma no_zero_empty: "no_zero DAList.empty"
  by (simp add: no_zero_def)

lemma dict_get_empty: "dict_get DAList.empty pos 0 = 0"
  by (simp add: dict_get_def)

lemma items_empty: "items DAList.empty = []"
  by (simp add: items_def DAList.empty.rep_eq)

lemma items_update_empty:
  "items (DAList.update k v DAList.empty) = [(k, v)]"
  by (simp add: items_def DAList.update.rep_eq DAList.empty.rep_eq)

lemma alist_items_eq: "items d = items d' \<Longrightarrow> d = d'"
  by (simp add: items_def DAList.alist_eq_iff)

lemma update_fresh: "k \<notin> fst ` set al \<Longrightarrow> AList.update k v al = al @ [(k, v)]"
  by (induction al) auto

lemma items_update_fresh:
  "k \<notin> fst ` set (items d) \<Longrightarrow> items (DAList.update k v d) = items d @ [(k, v)]"
  by (simp add: items_def DAList.update.rep_eq update_fresh)

lemma items_eq_of_lookup:
  assumes "DAList.lookup d1 = DAList.lookup d2"
  shows "set (items d1) = set (items d2)"
proof -
  have "(kv \<in> set (items d)) = (DAList.lookup d (fst kv) = Some (snd kv))" for d kv
    using distinct_items [of d] by (cases kv) (simp add: lookup_items)
  then show ?thesis using assms by auto
qed

lemma lookup_SparseMatrix_integral:
  "DAList.lookup (data (SparseMatrix_integral r c (Some d))) = DAList.lookup d"
  by (auto simp: SparseMatrix_integral_def lookup_items fun_eq_iff DAList.lookup.rep_eq items_def
      DAList.empty.rep_eq)

lemma data_SparseMatrix_integral: "data (SparseMatrix_integral r c (Some d)) = d"
  by (auto simp: SparseMatrix_integral_def items_def DAList.alist_eq_iff DAList.empty.rep_eq)

lemma in_bounds_not_out: "in_bounds m r c \<longleftrightarrow> \<not> out_of_range m r c"
  by (auto simp: in_bounds_def out_of_range_def)

lemma invariants_iff:
  "invariants m \<longleftrightarrow>
     (\<forall>r c v. DAList.lookup (data m) (r, c) = Some v \<longrightarrow> in_bounds m r c \<and> v \<noteq> 0)"
proof -
  have "map_of (items (data m)) (r, c) = Some v \<longleftrightarrow> ((r, c), v) \<in> set (items (data m))"
    for r c v
    using distinct_items [of "data m"] by simp
  then show ?thesis
    by (simp add: invariants_def list_all_iff lookup_items split_def) (metis prod.collapse fst_conv snd_conv)
qed

lemma invariants_no_zero: "invariants m \<Longrightarrow> no_zero (data m)"
  by (metis invariants_iff no_zero_def prod.collapse)

lemma invariants_stored:
  "invariants m \<Longrightarrow> dict_in (r, c) (data m) \<Longrightarrow> in_bounds m r c"
  by (auto simp: invariants_iff dict_in_def)

lemma invariants_upper_lower: "invariants m \<Longrightarrow> upper_ok m \<and> lower_ok m"
  by (auto simp: invariants_def upper_ok_def lower_ok_def list_all_iff in_bounds_def)

lemma invariants_m_diag: "invariants m_diag"
  by (simp add: invariants_def items_def m_diag_def DAList.update.rep_eq DAList.empty.rep_eq
      in_bounds_def)

lemma invariants_m_neg: "invariants m_neg"
  by (simp add: invariants_def items_def m_neg_def DAList.update.rep_eq DAList.empty.rep_eq
      in_bounds_def)

lemma rows_setElement_code: "rows (setElement_code m r c v) = rows m"
  by (simp add: setElement_code_def)

lemma cols_setElement_code: "cols (setElement_code m r c v) = cols m"
  by (simp add: setElement_code_def)

lemma lookup_setElement_code:
  "DAList.lookup (data (setElement_code m r c v)) = (DAList.lookup (data m))((r, c) := nonzero v)"
  by (auto simp: setElement_code_def nonzero_def dict_in_def lookup_update fun_eq_iff)

lemma foldl_set_rows:
  "rows (foldl (\<lambda>res (pos, v). if P pos then setElement_code res (fst pos) (snd pos) (f pos v) else res) res0 xs) = rows res0"
  by (induction xs arbitrary: res0) (auto simp: rows_setElement_code)

lemma foldl_set_cols:
  "cols (foldl (\<lambda>res (pos, v). if P pos then setElement_code res (fst pos) (snd pos) (f pos v) else res) res0 xs) = cols res0"
  by (induction xs arbitrary: res0) (auto simp: cols_setElement_code)

lemma foldl_set_lookup:
  "distinct (map fst xs) \<Longrightarrow>
   DAList.lookup (data (foldl (\<lambda>res (pos, v).
       if P pos then setElement_code res (fst pos) (snd pos) (f pos v) else res) res0 xs)) pos =
   (case map_of xs pos of
      None \<Rightarrow> DAList.lookup (data res0) pos
    | Some v \<Rightarrow> if P pos then nonzero (f pos v) else DAList.lookup (data res0) pos)"
proof (induction xs arbitrary: res0)
  case Nil
  then show ?case by simp
next
  case (Cons x xs)
  obtain k v where x: "x = (k, v)" by (cases x)
  from Cons.prems have d: "distinct (map fst xs)" and nk: "k \<notin> fst ` set xs"
    by (auto simp: x)
  from nk have none: "map_of xs k = None"
    by (simp add: map_of_eq_None_iff)
  show ?case
    using none by (cases k) (simp add: x Cons.IH [OF d] lookup_setElement_code split: option.splits)
qed

lemma foldl_set_all_rows:
  "rows (foldl (\<lambda>res (pos, v). setElement_code res (fst pos) (snd pos) (f pos v)) res0 xs) = rows res0"
  using foldl_set_rows [where P = "\<lambda>_. True"] by simp

lemma foldl_set_all_cols:
  "cols (foldl (\<lambda>res (pos, v). setElement_code res (fst pos) (snd pos) (f pos v)) res0 xs) = cols res0"
  using foldl_set_cols [where P = "\<lambda>_. True"] by simp

lemma foldl_set_all_lookup:
  "distinct (map fst xs) \<Longrightarrow>
   DAList.lookup (data (foldl (\<lambda>res (pos, v).
       setElement_code res (fst pos) (snd pos) (f pos v)) res0 xs)) pos =
   (case map_of xs pos of
      None \<Rightarrow> DAList.lookup (data res0) pos
    | Some v \<Rightarrow> nonzero (f pos v))"
  using foldl_set_lookup [where P = "\<lambda>_. True" and xs = xs and f = f and pos = pos]
  by (simp split: option.splits)

section \<open>Addition and subtraction\<close>

lemma add_code_lookup:
  assumes "rows A = rows B" "cols A = cols B"
  shows "\<exists>R. add_code A B = Inr R \<and> rows R = rows A \<and> cols R = cols A \<and>
     (\<forall>pos. DAList.lookup (data R) pos =
        nonzero (dict_get (data A) pos 0 + dict_get (data B) pos 0))"
proof -
  let ?f1 = "\<lambda>res (pos, v). setElement_code res (fst pos) (snd pos)
                (v + getElement_code B (fst pos) (snd pos))"
  let ?f2 = "\<lambda>res (pos, v). if \<not> dict_in pos (data A)
                then setElement_code res (fst pos) (snd pos) v else res"
  let ?r0 = "SparseMatrix_code (rows A) (cols A)"
  let ?r1 = "foldl ?f1 ?r0 (items (data A))"
  let ?R = "foldl ?f2 ?r1 (items (data B))"
  have eq: "add_code A B = Inr ?R"
    using assms by (simp add: add_code_def Let_def)
  have rows: "rows ?R = rows A" and cols: "cols ?R = cols A"
    by (simp_all add: foldl_set_rows foldl_set_cols foldl_set_all_rows foldl_set_all_cols
        SparseMatrix_code_def)
  have l1: "DAList.lookup (data ?r1) pos =
      (case DAList.lookup (data A) pos of None \<Rightarrow> None
       | Some v \<Rightarrow> nonzero (v + dict_get (data B) pos 0))" for pos
    by (cases pos)
      (simp add: foldl_set_all_lookup [OF distinct_items] lookup_items [symmetric]
        SparseMatrix_code_def getElement_code_def split: option.splits)
  have l2: "DAList.lookup (data ?R) pos =
        nonzero (dict_get (data A) pos 0 + dict_get (data B) pos 0)" for pos
    by (simp add: foldl_set_lookup [OF distinct_items] lookup_items [symmetric] l1
        dict_in_def dict_get_lookup nonzero_def split: option.splits)
  show ?thesis using eq rows cols l2 by blast
qed

lemma subtract_code_lookup:
  assumes "rows A = rows B" "cols A = cols B"
  shows "\<exists>R. subtract_code A B = Inr R \<and> rows R = rows A \<and> cols R = cols A \<and>
     (\<forall>pos. DAList.lookup (data R) pos =
        nonzero (dict_get (data A) pos 0 - dict_get (data B) pos 0))"
proof -
  let ?f1 = "\<lambda>res (pos, v). setElement_code res (fst pos) (snd pos)
                (v - getElement_code B (fst pos) (snd pos))"
  let ?f2 = "\<lambda>res (pos, v). if \<not> dict_in pos (data A)
                then setElement_code res (fst pos) (snd pos) (- v) else res"
  let ?r0 = "SparseMatrix_code (rows A) (cols A)"
  let ?r1 = "foldl ?f1 ?r0 (items (data A))"
  let ?R = "foldl ?f2 ?r1 (items (data B))"
  have eq: "subtract_code A B = Inr ?R"
    using assms by (simp add: subtract_code_def Let_def)
  have rows: "rows ?R = rows A" and cols: "cols ?R = cols A"
    by (simp_all add: foldl_set_rows foldl_set_cols foldl_set_all_rows foldl_set_all_cols
        SparseMatrix_code_def)
  have l1: "DAList.lookup (data ?r1) pos =
      (case DAList.lookup (data A) pos of None \<Rightarrow> None
       | Some v \<Rightarrow> nonzero (v - dict_get (data B) pos 0))" for pos
    by (cases pos)
      (simp add: foldl_set_all_lookup [OF distinct_items] lookup_items [symmetric]
        SparseMatrix_code_def getElement_code_def split: option.splits)
  have l2: "DAList.lookup (data ?R) pos =
        nonzero (dict_get (data A) pos 0 - dict_get (data B) pos 0)" for pos
    by (simp add: foldl_set_lookup [OF distinct_items] lookup_items [symmetric] l1
        dict_in_def dict_get_lookup nonzero_def split: option.splits)
  show ?thesis using eq rows cols l2 by blast
qed

lemma lookup_merge_entry:
  "DAList.lookup (merge_entry comb fresh d (key, v)) =
     (DAList.lookup d)(key := (case DAList.lookup d key of
                                 Some old \<Rightarrow> nonzero (comb old v)
                               | None \<Rightarrow> Some (fresh v)))"
  by (auto simp: merge_entry_def Let_def dict_get_def nonzero_def lookup_update fun_eq_iff
      split: option.splits)

lemma foldl_merge_lookup:
  "distinct (map fst xs) \<Longrightarrow>
   DAList.lookup (foldl (merge_entry comb fresh) d xs) pos =
   (case map_of xs pos of
      None \<Rightarrow> DAList.lookup d pos
    | Some v \<Rightarrow> (case DAList.lookup d pos of
                   Some old \<Rightarrow> nonzero (comb old v)
                 | None \<Rightarrow> Some (fresh v)))"
proof (induction xs arbitrary: d)
  case Nil
  then show ?case by simp
next
  case (Cons x xs)
  obtain k v where x: "x = (k, v)" by (cases x)
  from Cons.prems have d: "distinct (map fst xs)" and nk: "k \<notin> fst ` set xs"
    by (auto simp: x)
  from nk have none: "map_of xs k = None"
    by (simp add: map_of_eq_None_iff)
  show ?case
    using none by (simp add: x Cons.IH [OF d] lookup_merge_entry split: option.splits)
qed

lemma add_integral_lookup:
  assumes "rows A = rows B" "cols A = cols B" "no_zero (data A)" "no_zero (data B)"
  shows "\<exists>R. add_integral A B = Inr R \<and> rows R = rows A \<and> cols R = cols A \<and>
     (\<forall>pos. DAList.lookup (data R) pos =
        nonzero (dict_get (data A) pos 0 + dict_get (data B) pos 0))"
proof -
  let ?d = "foldl (merge_entry (\<lambda>old v. old + v) (\<lambda>v. v)) (data A) (items (data B))"
  let ?R = "SparseMatrix_integral (rows A) (cols A) (Some ?d)"
  have eq: "add_integral A B = Inr ?R"
    using assms by (simp add: add_integral_def Let_def)
  have rc: "rows ?R = rows A" "cols ?R = cols A"
    by (simp_all add: SparseMatrix_integral_def)
  have "DAList.lookup (data ?R) pos =
        nonzero (dict_get (data A) pos 0 + dict_get (data B) pos 0)" for pos
  proof -
    have "DAList.lookup (data A) pos \<noteq> Some 0" "DAList.lookup (data B) pos \<noteq> Some 0"
      using assms(3,4) by (simp_all only: no_zeroD not_False_eq_True)
    then show ?thesis
      by (auto simp: lookup_SparseMatrix_integral foldl_merge_lookup [OF distinct_items]
          lookup_items [symmetric] dict_get_lookup nonzero_def split: option.splits)
  qed
  then show ?thesis using eq rc by blast
qed

lemma subtract_integral_lookup:
  assumes "rows A = rows B" "cols A = cols B" "no_zero (data A)" "no_zero (data B)"
  shows "\<exists>R. subtract_integral A B = Inr R \<and> rows R = rows A \<and> cols R = cols A \<and>
     (\<forall>pos. DAList.lookup (data R) pos =
        nonzero (dict_get (data A) pos 0 - dict_get (data B) pos 0))"
proof -
  let ?d = "foldl (merge_entry (\<lambda>old v. old - v) (\<lambda>v. - v)) (data A) (items (data B))"
  let ?R = "SparseMatrix_integral (rows A) (cols A) (Some ?d)"
  have eq: "subtract_integral A B = Inr ?R"
    using assms by (simp add: subtract_integral_def Let_def)
  have rc: "rows ?R = rows A" "cols ?R = cols A"
    by (simp_all add: SparseMatrix_integral_def)
  have "DAList.lookup (data ?R) pos =
        nonzero (dict_get (data A) pos 0 - dict_get (data B) pos 0)" for pos
  proof -
    have "DAList.lookup (data A) pos \<noteq> Some 0" "DAList.lookup (data B) pos \<noteq> Some 0"
      using assms(3,4) by (simp_all only: no_zeroD not_False_eq_True)
    then show ?thesis
      by (auto simp: lookup_SparseMatrix_integral foldl_merge_lookup [OF distinct_items]
          lookup_items [symmetric] dict_get_lookup nonzero_def split: option.splits)
  qed
  then show ?thesis using eq rc by blast
qed

text \<open>
  \<open>add\<close> fails with \<open>DimensionMismatch\<close> when the shapes differ. When they agree,
  \<open>add\<close> of src/code returns the sum at every coordinate, whatever the operands store;
  \<open>add\<close> of src/integral-file does so for operands without a stored zero.
\<close>

lemma add_dimension_mismatch:
  "rows A \<noteq> rows B \<or> cols A \<noteq> cols B \<Longrightarrow>
   add_code A B = Inl DimensionMismatch \<and> add_integral A B = Inl DimensionMismatch"
  by (auto simp: add_code_def add_integral_def)

lemma add_code_sum:
  assumes "rows A = rows B" "cols A = cols B"
  shows "\<exists>R. add_code A B = Inr R \<and> rows R = rows A \<and> cols R = cols A
         \<and> (\<forall>r c. getElement_code R r c = getElement_code A r c + getElement_code B r c)
         \<and> (\<forall>r c. getElement_code A r c + getElement_code B r c = 0 \<longrightarrow>
                \<not> dict_in (r, c) (data R))
         \<and> (\<forall>r c. \<not> dict_in (r, c) (data A) \<and> \<not> dict_in (r, c) (data B) \<longrightarrow>
                \<not> dict_in (r, c) (data R))"
proof -
  from add_code_lookup [of A B] assms
  obtain R where eq: "add_code A B = Inr R" and rc: "rows R = rows A" "cols R = cols A"
    and l: "\<And>pos. DAList.lookup (data R) pos =
        nonzero (dict_get (data A) pos 0 + dict_get (data B) pos 0)"
    by blast
  have "getElement_code R r c = getElement_code A r c + getElement_code B r c" for r c
    by (simp add: getElement_code_def dict_get_lookup [of "data R"] l nonzero_def)
  moreover have "getElement_code A r c + getElement_code B r c = 0 \<longrightarrow>
      \<not> dict_in (r, c) (data R)" for r c
    by (simp add: getElement_code_def dict_in_def l nonzero_def)
  moreover have "\<not> dict_in (r, c) (data A) \<and> \<not> dict_in (r, c) (data B) \<longrightarrow>
      \<not> dict_in (r, c) (data R)" for r c
    by (simp add: dict_in_def l nonzero_def dict_get_def)
  ultimately show ?thesis
    using eq rc by blast
qed

lemma add_integral_sum:
  assumes "rows A = rows B" "cols A = cols B" "no_zero (data A)" "no_zero (data B)"
  shows "\<exists>R. add_integral A B = Inr R \<and> rows R = rows A \<and> cols R = cols A
         \<and> (\<forall>r c. dict_get (data R) (r, c) 0 =
                dict_get (data A) (r, c) 0 + dict_get (data B) (r, c) 0)
         \<and> (\<forall>r c. dict_get (data A) (r, c) 0 + dict_get (data B) (r, c) 0 = 0 \<longrightarrow>
                \<not> dict_in (r, c) (data R))
         \<and> (\<forall>r c. \<not> dict_in (r, c) (data A) \<and> \<not> dict_in (r, c) (data B) \<longrightarrow>
                \<not> dict_in (r, c) (data R))"
proof -
  from add_integral_lookup [OF assms]
  obtain R where eq: "add_integral A B = Inr R" and rc: "rows R = rows A" "cols R = cols A"
    and l: "\<And>pos. DAList.lookup (data R) pos =
        nonzero (dict_get (data A) pos 0 + dict_get (data B) pos 0)"
    by blast
  have "dict_get (data R) (r, c) 0 = dict_get (data A) (r, c) 0 + dict_get (data B) (r, c) 0"
    for r c
    by (simp add: dict_get_lookup [of "data R"] l nonzero_def)
  moreover have "dict_get (data A) (r, c) 0 + dict_get (data B) (r, c) 0 = 0 \<longrightarrow>
      \<not> dict_in (r, c) (data R)" for r c
    by (simp add: dict_in_def l nonzero_def)
  moreover have "\<not> dict_in (r, c) (data A) \<and> \<not> dict_in (r, c) (data B) \<longrightarrow>
      \<not> dict_in (r, c) (data R)" for r c
    by (simp add: dict_in_def l nonzero_def dict_get_def)
  ultimately show ?thesis
    using eq rc by blast
qed

text \<open>
  Claim C5 says that the coordinates whose sum is zero are absent from the result of
  \<open>add\<close>. \<open>add\<close> of src/integral-file copies the dictionary of its left operand, stores
  the value of the right operand where the left one has none, and tests for zero only
  where both operands store a value: a zero stored in one operand at a coordinate that
  is absent from the other one is stored in the result, where the sum is zero.
\<close>

theorem add_integral_keeps_stored_zero:
  assumes "rows A = rows B" "cols A = cols B"
    and "DAList.lookup (data A) (r, c) = Some 0 \<and> DAList.lookup (data B) (r, c) = None
         \<or> DAList.lookup (data A) (r, c) = None \<and> DAList.lookup (data B) (r, c) = Some 0"
  shows "\<exists>R. add_integral A B = Inr R
           \<and> dict_get (data A) (r, c) 0 + dict_get (data B) (r, c) 0 = 0
           \<and> dict_in (r, c) (data R) \<and> DAList.lookup (data R) (r, c) = Some 0"
proof -
  let ?d = "foldl (merge_entry (\<lambda>old v. old + v) (\<lambda>v. v)) (data A) (items (data B))"
  let ?R = "SparseMatrix_integral (rows A) (cols A) (Some ?d)"
  have eq: "add_integral A B = Inr ?R"
    using assms(1,2) by (simp add: add_integral_def Let_def)
  have l: "DAList.lookup (data ?R) (r, c) = Some 0"
    using assms(3)
    by (auto simp: lookup_SparseMatrix_integral foldl_merge_lookup [OF distinct_items]
        lookup_items [symmetric])
  have s: "dict_get (data A) (r, c) 0 + dict_get (data B) (r, c) 0 = 0"
    using assms(3) by (auto simp: dict_get_lookup)
  from l have "dict_in (r, c) (data ?R)"
    by (simp add: dict_in_def)
  with eq l s show ?thesis by blast
qed

text \<open>
  Such an operand is reached through the public operations: \<open>load_from_file\<close> of
  src/integral-file stores the zero of the entry line \<open>(0,0,0)\<close>. The sum of the matrix it
  reads from \<open>text_zero\<close> and of the empty 1 by 1 matrix stores 0 at (0, 0).
\<close>

theorem add_integral_keeps_stored_zero_witness:
  "load_from_file text_zero = Inr m_zero
   \<and> rows m_zero = rows (SparseMatrix_integral 1 1 None)
   \<and> cols m_zero = cols (SparseMatrix_integral 1 1 None)
   \<and> DAList.lookup (data m_zero) (0, 0) = Some 0
   \<and> DAList.lookup (data (SparseMatrix_integral 1 1 None)) (0, 0) = None
   \<and> getElement_integral m_zero 0 0 = Inr 0
   \<and> getElement_integral (SparseMatrix_integral 1 1 None) 0 0 = Inr 0
   \<and> add_integral m_zero (SparseMatrix_integral 1 1 None) = Inr m_zero
   \<and> (\<exists>R. add_integral m_zero (SparseMatrix_integral 1 1 None) = Inr R
          \<and> dict_in (0, 0) (data R) \<and> getElement_integral R 0 0 = Inr 0)"
proof -
  let ?E = "SparseMatrix_integral 1 1 None"
  have ld: "load_from_file text_zero = Inr m_zero"
    unfolding text_zero_def m_zero_def by code_simp
  have sh: "rows m_zero = rows ?E" "cols m_zero = cols ?E"
    by (simp_all add: m_zero_def SparseMatrix_integral_def)
  have st: "DAList.lookup (data m_zero) (0, 0) = Some 0 \<and> DAList.lookup (data ?E) (0, 0) = None
      \<or> DAList.lookup (data m_zero) (0, 0) = None \<and> DAList.lookup (data ?E) (0, 0) = Some 0"
    by (simp add: m_zero_def SparseMatrix_integral_def)
  have g: "getElement_integral m_zero 0 0 = Inr 0" "getElement_integral ?E 0 0 = Inr 0"
    by (simp_all add: getElement_integral_def out_of_range_def SparseMatrix_integral_def
        dict_get_def m_zero_def)
  have ad: "add_integral m_zero ?E = Inr m_zero"
    unfolding m_zero_def by code_simp
  from add_integral_keeps_stored_zero [OF sh st] ad
  have "dict_in (0, 0) (data m_zero)" by simp
  with ad g(1) have "\<exists>R. add_integral m_zero ?E = Inr R
          \<and> dict_in (0, 0) (data R) \<and> getElement_integral R 0 0 = Inr 0"
    by simp
  with ld sh st g ad show ?thesis
    by (simp add: m_zero_def SparseMatrix_integral_def)
qed

section \<open>Multiplication\<close>

lemma set_range: "set (range_py n) = {0..<n}"
  by (auto simp: range_py_def)

lemma distinct_range: "distinct (range_py n)"
  by (simp add: range_py_def)

lemma foldl_add_sum_list: "foldl (\<lambda>t k. t + f k) a xs = a + sum_list (map f xs)"
  for a :: int
  by (induction xs arbitrary: a) simp_all

lemma total_code_sum: "total_code A B i j = product_sum A B i j"
  by (simp add: total_code_def product_sum_def foldl_add_sum_list getElement_code_def
      sum_list_distinct_conv_sum_set distinct_range set_range)

lemma inner_code_rows:
  "rows (foldl (\<lambda>res j. let total = T j in
       if total \<noteq> 0 then setElement_code res i j total else res) res js) = rows res"
  by (induction js arbitrary: res) (simp_all add: Let_def rows_setElement_code)

lemma inner_code_cols:
  "cols (foldl (\<lambda>res j. let total = T j in
       if total \<noteq> 0 then setElement_code res i j total else res) res js) = cols res"
  by (induction js arbitrary: res) (simp_all add: Let_def cols_setElement_code)

lemma inner_code_lookup:
  "DAList.lookup (data (foldl (\<lambda>res j. let total = T j in
       if total \<noteq> 0 then setElement_code res i j total else res) res js)) (i', j') =
   (if i' = i \<and> j' \<in> set js \<and> T j' \<noteq> 0 then Some (T j')
    else DAList.lookup (data res) (i', j'))"
  by (induction js arbitrary: res)
    (auto simp: Let_def lookup_setElement_code nonzero_def)

lemma outer_code_rows:
  "rows (foldl (\<lambda>res i. foldl (\<lambda>res j. let total = T i j in
       if total \<noteq> 0 then setElement_code res i j total else res) res js) res is) = rows res"
  by (induction "is" arbitrary: res) (simp_all add: inner_code_rows)

lemma outer_code_cols:
  "cols (foldl (\<lambda>res i. foldl (\<lambda>res j. let total = T i j in
       if total \<noteq> 0 then setElement_code res i j total else res) res js) res is) = cols res"
  by (induction "is" arbitrary: res) (simp_all add: inner_code_cols)

lemma outer_code_lookup:
  "DAList.lookup (data (foldl (\<lambda>res i. foldl (\<lambda>res j. let total = T i j in
       if total \<noteq> 0 then setElement_code res i j total else res) res js) res is)) (i', j') =
   (if i' \<in> set is \<and> j' \<in> set js \<and> T i' j' \<noteq> 0 then Some (T i' j')
    else DAList.lookup (data res) (i', j'))"
  by (induction "is" arbitrary: res) (auto simp: inner_code_lookup)

lemma multiply_code_lookup:
  assumes "cols A = rows B"
  shows "\<exists>R. multiply_code A B = Inr R \<and> rows R = rows A \<and> cols R = cols B \<and>
     (\<forall>i j. DAList.lookup (data R) (i, j) =
        (if 0 \<le> i \<and> i < rows A \<and> 0 \<le> j \<and> j < cols B then nonzero (product_sum A B i j)
         else None))"
proof -
  let ?R = "foldl (\<lambda>res i. foldl (\<lambda>res j. let total = total_code A B i j in
       if total \<noteq> 0 then setElement_code res i j total else res) res (range_py (cols B)))
       (SparseMatrix_code (rows A) (cols B)) (range_py (rows A))"
  have eq: "multiply_code A B = Inr ?R"
    using assms by (simp add: multiply_code_def)
  have rc: "rows ?R = rows A" "cols ?R = cols B"
    by (simp_all add: outer_code_rows outer_code_cols SparseMatrix_code_def)
  have "DAList.lookup (data ?R) (i, j) =
        (if 0 \<le> i \<and> i < rows A \<and> 0 \<le> j \<and> j < cols B then nonzero (product_sum A B i j)
         else None)" for i j
    by (simp add: outer_code_lookup set_range total_code_sum nonzero_def SparseMatrix_code_def)
  then show ?thesis using eq rc by blast
qed

lemma accumulate_ok:
  assumes "\<not> out_of_range B k j" "no_zero d"
  shows "\<exists>d'. accumulate B i k v j d = Inr d' \<and> no_zero d' \<and>
     (\<forall>pos. dict_get d' pos 0 =
        dict_get d pos 0 + (if pos = (i, j) then v * dict_get (data B) (k, j) 0 else 0))"
proof (cases "dict_get (data B) (k, j) 0 = 0")
  case True
  with assms show ?thesis
    by (simp add: accumulate_def getElement_integral_def)
next
  case False
  let ?x = "dict_get d (i, j) 0 + v * dict_get (data B) (k, j) 0"
  let ?u = "DAList.update (i, j) ?x d"
  have g: "dict_get ?u (i, j) 0 = ?x"
    by (simp add: dict_get_def)
  show ?thesis
  proof (cases "?x = 0")
    case True
    have eq: "accumulate B i k v j d = Inr (DAList.delete (i, j) ?u)"
      using assms(1) False True g by (simp add: accumulate_def getElement_integral_def Let_def)
    have nz: "no_zero (DAList.delete (i, j) ?u)"
      using assms(2) by (auto simp: no_zero_def lookup_update)
    have "dict_get (DAList.delete (i, j) ?u) pos 0 =
        dict_get d pos 0 + (if pos = (i, j) then v * dict_get (data B) (k, j) 0 else 0)" for pos
      using True by (auto simp: dict_get_def lookup_update)
    with eq nz show ?thesis by blast
  next
    case nx: False
    have eq: "accumulate B i k v j d = Inr ?u"
      using assms(1) False nx g by (simp add: accumulate_def getElement_integral_def Let_def)
    have nz: "no_zero ?u"
      using assms(2) nx by (auto simp: no_zero_def lookup_update)
    have "dict_get ?u pos 0 =
        dict_get d pos 0 + (if pos = (i, j) then v * dict_get (data B) (k, j) 0 else 0)" for pos
      by (auto simp: dict_get_def lookup_update)
    with eq nz show ?thesis by blast
  qed
qed

lemma inner_integral_ok:
  assumes "\<forall>j \<in> set js. \<not> out_of_range B k j" "distinct js" "no_zero d"
  shows "\<exists>d'. for_each js (accumulate B i k v) d = Inr d' \<and> no_zero d' \<and>
     (\<forall>i' j'. dict_get d' (i', j') 0 =
        dict_get d (i', j') 0 +
          (if i' = i \<and> j' \<in> set js then v * dict_get (data B) (k, j') 0 else 0))"
  using assms
proof (induction js arbitrary: d)
  case Nil
  then show ?case by simp
next
  case (Cons j js)
  from Cons.prems have oj: "\<not> out_of_range B k j" by simp
  from accumulate_ok [OF oj Cons.prems(3), of i v]
  obtain d1 where a: "accumulate B i k v j d = Inr d1" and nz1: "no_zero d1"
    and g1: "\<And>pos. dict_get d1 pos 0 =
        dict_get d pos 0 + (if pos = (i, j) then v * dict_get (data B) (k, j) 0 else 0)"
    by blast
  from Cons.prems have r: "\<forall>j \<in> set js. \<not> out_of_range B k j" "distinct js" "j \<notin> set js"
    by simp_all
  from Cons.IH [OF r(1) r(2) nz1]
  obtain d' where f: "for_each js (accumulate B i k v) d1 = Inr d'" and nz': "no_zero d'"
    and g': "\<And>i' j'. dict_get d' (i', j') 0 =
        dict_get d1 (i', j') 0 +
          (if i' = i \<and> j' \<in> set js then v * dict_get (data B) (k, j') 0 else 0)"
    by blast
  have "for_each (j # js) (accumulate B i k v) d = Inr d'"
    using a f by simp
  moreover have "dict_get d' (i', j') 0 =
        dict_get d (i', j') 0 +
          (if i' = i \<and> j' \<in> set (j # js) then v * dict_get (data B) (k, j') 0 else 0)"
    for i' j'
    using r(3) by (auto simp: g' g1)
  ultimately show ?case using nz' by blast
qed

lemma outer_integral_ok:
  assumes "\<forall>((i, k), v) \<in> set xs. \<forall>j \<in> set js. \<not> out_of_range B k j"
    "distinct js" "no_zero d"
  shows "\<exists>d'. for_each xs (\<lambda>((i, k), val1). for_each js (accumulate B i k val1)) d = Inr d'
     \<and> no_zero d' \<and>
     (\<forall>i' j'. dict_get d' (i', j') 0 =
        dict_get d (i', j') 0 + (if j' \<in> set js then row_terms B i' j' xs else 0))"
  using assms
proof (induction xs arbitrary: d)
  case Nil
  then show ?case by (simp add: row_terms_def)
next
  case (Cons x xs)
  obtain i k v where x: "x = ((i, k), v)" by (metis prod.collapse)
  from Cons.prems(1) have ok: "\<forall>j \<in> set js. \<not> out_of_range B k j"
    by (simp add: x)
  from inner_integral_ok [OF ok Cons.prems(2) Cons.prems(3), of i v]
  obtain d1 where a: "for_each js (accumulate B i k v) d = Inr d1" and nz1: "no_zero d1"
    and g1: "\<And>i' j'. dict_get d1 (i', j') 0 =
        dict_get d (i', j') 0 +
          (if i' = i \<and> j' \<in> set js then v * dict_get (data B) (k, j') 0 else 0)"
    by blast
  from Cons.prems(1) have r: "\<forall>((i, k), v) \<in> set xs. \<forall>j \<in> set js. \<not> out_of_range B k j"
    by simp
  from Cons.IH [OF r Cons.prems(2) nz1]
  obtain d' where f: "for_each xs (\<lambda>((i, k), val1). for_each js (accumulate B i k val1)) d1
      = Inr d'" and nz': "no_zero d'"
    and g': "\<And>i' j'. dict_get d' (i', j') 0 =
        dict_get d1 (i', j') 0 + (if j' \<in> set js then row_terms B i' j' xs else 0)"
    by blast
  have "for_each (x # xs) (\<lambda>((i, k), val1). for_each js (accumulate B i k val1)) d = Inr d'"
    using a f by (simp add: x)
  moreover have "dict_get d' (i', j') 0 =
        dict_get d (i', j') 0 + (if j' \<in> set js then row_terms B i' j' (x # xs) else 0)"
    for i' j'
    by (simp add: g' g1 x row_terms_def)
  ultimately show ?case using nz' by blast
qed

lemma row_terms_sum:
  assumes "distinct (map fst xs)" "\<forall>((i, k), v) \<in> set xs. 0 \<le> k \<and> k < n"
  shows "row_terms B i' j' xs =
     (\<Sum>k = 0..<n. (case map_of xs (i', k) of None \<Rightarrow> 0 | Some v \<Rightarrow> v)
                      * dict_get (data B) (k, j') 0)"
  using assms
proof (induction xs)
  case Nil
  then show ?case by (simp add: row_terms_def)
next
  case (Cons x xs)
  obtain i k v where x: "x = ((i, k), v)" by (metis prod.collapse)
  let ?g = "\<lambda>k. dict_get (data B) (k, j') 0"
  let ?h = "\<lambda>k. (case map_of xs (i', k) of None \<Rightarrow> 0 | Some v \<Rightarrow> v) * ?g k"
  from Cons.prems have d: "distinct (map fst xs)" and nk: "(i, k) \<notin> fst ` set xs"
    and kb: "0 \<le> k" "k < n" and r: "\<forall>((i, k), v) \<in> set xs. 0 \<le> k \<and> k < n"
    by (auto simp: x)
  have ih: "row_terms B i' j' xs = sum ?h {0..<n}"
    using Cons.IH [OF d r] .
  have step: "row_terms B i' j' (((i, k), v) # xs) =
      (if i = i' then v * ?g k else 0) + row_terms B i' j' xs"
    by (simp add: row_terms_def)
  have goal: "row_terms B i' j' (((i, k), v) # xs) =
     (\<Sum>k' = 0..<n. (case map_of (((i, k), v) # xs) (i', k') of None \<Rightarrow> 0 | Some v \<Rightarrow> v)
                      * ?g k')"
  proof (cases "i = i'")
    case False
    then show ?thesis by (simp add: step ih)
  next
    case True
    from nk True have none: "map_of xs (i', k) = None"
      by (simp add: map_of_eq_None_iff)
    have "(\<Sum>k' = 0..<n. (case map_of (((i, k), v) # xs) (i', k') of None \<Rightarrow> 0 | Some v \<Rightarrow> v) * ?g k')
        = (\<Sum>k' = 0..<n. (if k' = k then v * ?g k else 0) + ?h k')"
      by (rule sum.cong) (auto simp: True none)
    also have "\<dots> = (\<Sum>k' = 0..<n. if k' = k then v * ?g k else 0) + sum ?h {0..<n}"
      by (simp add: sum.distrib)
    also have "(\<Sum>k' = 0..<n. if k' = k then v * ?g k else 0) = v * ?g k"
      using kb by simp
    finally have fin:
      "(\<Sum>k' = 0..<n. (case map_of (((i, k), v) # xs) (i', k') of None \<Rightarrow> 0 | Some v \<Rightarrow> v) * ?g k')
        = v * ?g k + sum ?h {0..<n}" .
    have s2: "row_terms B i' j' (((i, k), v) # xs) = v * ?g k + sum ?h {0..<n}"
      using step ih True by simp
    show ?thesis by (simp only: s2 fin)
  qed
  show ?case unfolding x by (rule goal)
qed

lemma product_sum_outside:
  assumes "invariants A" "\<not> (0 \<le> i \<and> i < rows A)"
  shows "product_sum A B i j = 0"
proof -
  have "DAList.lookup (data A) (i, k) = None" for k
    using assms by (cases "DAList.lookup (data A) (i, k)") (auto simp: invariants_iff in_bounds_def)
  then show ?thesis by (simp add: product_sum_def dict_get_def)
qed

lemma multiply_integral_lookup:
  assumes "invariants A" "cols A = rows B"
  shows "\<exists>R. multiply_integral A B = Inr R \<and> rows R = rows A \<and> cols R = cols B \<and>
     (\<forall>i j. DAList.lookup (data R) (i, j) =
        (if 0 \<le> i \<and> i < rows A \<and> 0 \<le> j \<and> j < cols B then nonzero (product_sum A B i j)
         else None))"
proof -
  let ?xs = "items (data A)"
  let ?js = "range_py (cols B)"
  have inA: "((i, k), v) \<in> set ?xs \<Longrightarrow> in_bounds A i k" for i k v
    using assms(1) by (auto simp: invariants_def list_all_iff)
  have ok: "\<forall>((i, k), v) \<in> set ?xs. \<forall>j \<in> set ?js. \<not> out_of_range B k j"
    using inA assms(2) by (fastforce simp: out_of_range_def in_bounds_def set_range)
  from outer_integral_ok [OF ok distinct_range no_zero_empty]
  obtain d' where f: "for_each ?xs (\<lambda>((i, k), val1). for_each ?js (accumulate B i k val1))
      DAList.empty = Inr d'" and nz: "no_zero d'"
    and g: "\<And>i' j'. dict_get d' (i', j') 0 =
        dict_get DAList.empty (i', j') 0 + (if j' \<in> set ?js then row_terms B i' j' ?xs else 0)"
    by blast
  let ?R = "SparseMatrix_integral (rows A) (cols B) (Some d')"
  have eq: "multiply_integral A B = Inr ?R"
    using assms(2) f by (simp add: multiply_integral_def)
  have rc: "rows ?R = rows A" "cols ?R = cols B"
    by (simp_all add: SparseMatrix_integral_def)
  have kb: "\<forall>((i, k), v) \<in> set ?xs. 0 \<le> k \<and> k < cols A"
    using inA by (auto simp: in_bounds_def)
  have rt: "row_terms B i j ?xs = product_sum A B i j" for i j
    by (simp add: row_terms_sum [OF distinct_items kb] product_sum_def dict_get_lookup
        lookup_items)
  have "DAList.lookup (data ?R) (i, j) =
        (if 0 \<le> i \<and> i < rows A \<and> 0 \<le> j \<and> j < cols B then nonzero (product_sum A B i j)
         else None)" for i j
    using product_sum_outside [OF assms(1), of i B j]
    by (auto simp: lookup_SparseMatrix_integral lookup_no_zero [OF nz] g rt dict_get_empty
        set_range nonzero_def)
  then show ?thesis using eq rc by blast
qed

text \<open>
  Claim C1. For every pair of matrices \<open>A\<close> and \<open>B\<close> that satisfy the data-model
  invariants: when \<open>A.cols \<noteq> B.rows\<close>, \<open>multiply\<close> fails with \<open>DimensionMismatch\<close>;
  otherwise it returns a matrix of shape \<open>(A.rows, B.cols)\<close> whose value at every
  coordinate \<open>(i, j)\<close> of that shape is the sum over \<open>0 \<le> k < A.cols\<close> of
  \<open>A.get(i, k) * B.get(k, j)\<close>, and no coordinate whose sum is zero is stored. This holds
  for the dense loop of src/code and for the entry-driven loop of src/integral-file.
\<close>

theorem multiply_product:
  assumes "invariants A" "invariants B"
  shows "(cols A \<noteq> rows B \<longrightarrow>
      multiply_code A B = Inl DimensionMismatch \<and> multiply_integral A B = Inl DimensionMismatch)
   \<and> (cols A = rows B \<longrightarrow>
      (\<exists>R. multiply_code A B = Inr R \<and> rows R = rows A \<and> cols R = cols B
         \<and> (\<forall>i j. in_bounds R i j \<longrightarrow> getElement_code R i j = product_sum A B i j)
         \<and> (\<forall>i j. product_sum A B i j = 0 \<longrightarrow> \<not> dict_in (i, j) (data R)))
      \<and> (\<exists>R. multiply_integral A B = Inr R \<and> rows R = rows A \<and> cols R = cols B
         \<and> (\<forall>i j. in_bounds R i j \<longrightarrow> getElement_integral R i j = Inr (product_sum A B i j))
         \<and> (\<forall>i j. product_sum A B i j = 0 \<longrightarrow> \<not> dict_in (i, j) (data R))))"
proof (intro conjI impI)
  assume "cols A \<noteq> rows B"
  then show "multiply_code A B = Inl DimensionMismatch" by (simp add: multiply_code_def)
next
  assume "cols A \<noteq> rows B"
  then show "multiply_integral A B = Inl DimensionMismatch" by (simp add: multiply_integral_def)
next
  assume s: "cols A = rows B"
  from multiply_code_lookup [OF s]
  obtain R where eq: "multiply_code A B = Inr R" and rc: "rows R = rows A" "cols R = cols B"
    and l: "\<And>i j. DAList.lookup (data R) (i, j) =
        (if 0 \<le> i \<and> i < rows A \<and> 0 \<le> j \<and> j < cols B then nonzero (product_sum A B i j)
         else None)"
    by blast
  have "in_bounds R i j \<longrightarrow> getElement_code R i j = product_sum A B i j" for i j
    by (simp add: in_bounds_def rc getElement_code_def dict_get_lookup l nonzero_def)
  moreover have "product_sum A B i j = 0 \<longrightarrow> \<not> dict_in (i, j) (data R)" for i j
    by (simp add: dict_in_def l nonzero_def)
  ultimately show "\<exists>R. multiply_code A B = Inr R \<and> rows R = rows A \<and> cols R = cols B
         \<and> (\<forall>i j. in_bounds R i j \<longrightarrow> getElement_code R i j = product_sum A B i j)
         \<and> (\<forall>i j. product_sum A B i j = 0 \<longrightarrow> \<not> dict_in (i, j) (data R))"
    using eq rc by blast
next
  assume s: "cols A = rows B"
  from multiply_integral_lookup [OF assms(1) s]
  obtain R where eq: "multiply_integral A B = Inr R" and rc: "rows R = rows A" "cols R = cols B"
    and l: "\<And>i j. DAList.lookup (data R) (i, j) =
        (if 0 \<le> i \<and> i < rows A \<and> 0 \<le> j \<and> j < cols B then nonzero (product_sum A B i j)
         else None)"
    by blast
  have "in_bounds R i j \<longrightarrow> getElement_integral R i j = Inr (product_sum A B i j)" for i j
    by (auto simp: in_bounds_def rc getElement_integral_def out_of_range_def dict_get_lookup l
        nonzero_def)
  moreover have "product_sum A B i j = 0 \<longrightarrow> \<not> dict_in (i, j) (data R)" for i j
    by (simp add: dict_in_def l nonzero_def)
  ultimately show "\<exists>R. multiply_integral A B = Inr R \<and> rows R = rows A \<and> cols R = cols B
         \<and> (\<forall>i j. in_bounds R i j \<longrightarrow> getElement_integral R i j = Inr (product_sum A B i j))
         \<and> (\<forall>i j. product_sum A B i j = 0 \<longrightarrow> \<not> dict_in (i, j) (data R))"
    using eq rc by blast
qed

lemma range_two: "{0..<2::int} = {0, 1}"
  by auto

lemma product_sum_example:
  "product_sum m_diag m_neg 0 0 = - 1" "product_sum m_diag m_neg 1 1 = 0"
  by (simp_all add: product_sum_def range_two dict_get_def m_diag_def m_neg_def)

text \<open>
  For \<open>m_diag\<close> times \<open>m_neg\<close> the product is -1 at (0, 0) and 0 at (1, 1).
\<close>

theorem multiply_product_witness:
  "invariants m_diag \<and> invariants m_neg \<and> cols m_diag = rows m_neg
   \<and> (\<exists>R. multiply_code m_diag m_neg = Inr R \<and> rows R = 2 \<and> cols R = 2
          \<and> getElement_code R 0 0 = - 1 \<and> \<not> dict_in (1, 1) (data R))
   \<and> (\<exists>R. multiply_integral m_diag m_neg = Inr R \<and> rows R = 2 \<and> cols R = 2
          \<and> getElement_integral R 0 0 = Inr (- 1) \<and> \<not> dict_in (1, 1) (data R))"
proof -
  have s: "cols m_diag = rows m_neg" by (simp add: m_diag_def m_neg_def)
  have d: "rows m_diag = 2" "cols m_neg = 2" by (simp_all add: m_diag_def m_neg_def)
  note t = multiply_product [OF invariants_m_diag invariants_m_neg]
  from t s obtain R where
    R: "multiply_code m_diag m_neg = Inr R" "rows R = rows m_diag" "cols R = cols m_neg"
    "\<And>i j. in_bounds R i j \<longrightarrow> getElement_code R i j = product_sum m_diag m_neg i j"
    "\<And>i j. product_sum m_diag m_neg i j = 0 \<longrightarrow> \<not> dict_in (i, j) (data R)"
    by blast
  have c: "\<exists>R. multiply_code m_diag m_neg = Inr R \<and> rows R = 2 \<and> cols R = 2
          \<and> getElement_code R 0 0 = - 1 \<and> \<not> dict_in (1, 1) (data R)"
    using R(1,2,3) R(4) [of 0 0] R(5) [of 1 1] d product_sum_example
    by (simp add: in_bounds_def)
  from t s obtain R' where
    R': "multiply_integral m_diag m_neg = Inr R'" "rows R' = rows m_diag" "cols R' = cols m_neg"
    "\<And>i j. in_bounds R' i j \<longrightarrow> getElement_integral R' i j = Inr (product_sum m_diag m_neg i j)"
    "\<And>i j. product_sum m_diag m_neg i j = 0 \<longrightarrow> \<not> dict_in (i, j) (data R')"
    by blast
  have i: "\<exists>R. multiply_integral m_diag m_neg = Inr R \<and> rows R = 2 \<and> cols R = 2
          \<and> getElement_integral R 0 0 = Inr (- 1) \<and> \<not> dict_in (1, 1) (data R)"
    using R'(1,2,3) R'(4) [of 0 0] R'(5) [of 1 1] d product_sum_example
    by (simp add: in_bounds_def)
  show ?thesis using invariants_m_diag invariants_m_neg s c i by blast
qed

text \<open>
  Claim C10. For every pair of matrices \<open>A\<close> and \<open>B\<close> that satisfy the data-model
  invariants, with \<open>A.cols = B.rows\<close>, the dense multiplication of src/code and the
  entry-driven multiplication of src/integral-file both return a matrix, and the two
  have the same rows, the same cols and the same entries (the same dictionary as a
  map, and the same set of stored pairs).
\<close>

theorem multiply_variants_agree:
  assumes "invariants A" "invariants B" "cols A = rows B"
  shows "\<exists>R1 R2. multiply_code A B = Inr R1 \<and> multiply_integral A B = Inr R2
     \<and> rows R1 = rows R2 \<and> cols R1 = cols R2
     \<and> DAList.lookup (data R1) = DAList.lookup (data R2)
     \<and> set (items (data R1)) = set (items (data R2))"
proof -
  from multiply_code_lookup [OF assms(3)]
  obtain R1 where 1: "multiply_code A B = Inr R1" "rows R1 = rows A" "cols R1 = cols B"
    and l1: "\<And>i j. DAList.lookup (data R1) (i, j) =
        (if 0 \<le> i \<and> i < rows A \<and> 0 \<le> j \<and> j < cols B then nonzero (product_sum A B i j)
         else None)"
    by blast
  from multiply_integral_lookup [OF assms(1) assms(3)]
  obtain R2 where 2: "multiply_integral A B = Inr R2" "rows R2 = rows A" "cols R2 = cols B"
    and l2: "\<And>i j. DAList.lookup (data R2) (i, j) =
        (if 0 \<le> i \<and> i < rows A \<and> 0 \<le> j \<and> j < cols B then nonzero (product_sum A B i j)
         else None)"
    by blast
  have "DAList.lookup (data R1) pos = DAList.lookup (data R2) pos" for pos
    by (cases pos) (simp add: l1 l2)
  then have eq: "DAList.lookup (data R1) = DAList.lookup (data R2)"
    by (rule ext)
  show ?thesis using 1 2 eq items_eq_of_lookup [OF eq] by auto
qed

text \<open>
  The two multiplications agree on \<open>m_diag\<close> and \<open>m_neg\<close>.
\<close>

theorem multiply_variants_agree_witness:
  "invariants m_diag \<and> invariants m_neg \<and> cols m_diag = rows m_neg
   \<and> (\<exists>R1 R2. multiply_code m_diag m_neg = Inr R1 \<and> multiply_integral m_diag m_neg = Inr R2
     \<and> rows R1 = rows R2 \<and> cols R1 = cols R2
     \<and> DAList.lookup (data R1) = DAList.lookup (data R2)
     \<and> set (items (data R1)) = set (items (data R2)))"
proof -
  have s: "cols m_diag = rows m_neg" by (simp add: m_diag_def m_neg_def)
  show ?thesis
    using invariants_m_diag invariants_m_neg s
      multiply_variants_agree [OF invariants_m_diag invariants_m_neg s]
    by blast
qed

section \<open>Integers as text\<close>

lemma lt10: "(d::nat) < 10 \<Longrightarrow> d \<in> {0,1,2,3,4,5,6,7,8,9}"
  by auto

lemma digit_char_cases:
  "digit_char 0 = CHR ''0''" "digit_char 1 = CHR ''1''" "digit_char 2 = CHR ''2''"
  "digit_char 3 = CHR ''3''" "digit_char 4 = CHR ''4''" "digit_char 5 = CHR ''5''"
  "digit_char 6 = CHR ''6''" "digit_char 7 = CHR ''7''" "digit_char 8 = CHR ''8''"
  "digit_char 9 = CHR ''9''" "digit_char (Suc 0) = CHR ''1''"
  by code_simp+

lemma digit_char_props:
  assumes "d < 10"
  shows "is_ascii_digit (digit_char d)" "digit_value (digit_char d) = int d"
    "digit_char d \<noteq> CHR ''_''" "\<not> isspace (digit_char d)" "digit_char d \<noteq> CHR ''-''"
    "digit_char d \<noteq> CHR ''+''" "digit_char d \<noteq> newline" "digit_char d \<noteq> CHR ''=''"
    "digit_char d \<noteq> CHR '',''"
  using lt10 [OF assms]
  by (auto simp: digit_char_cases is_ascii_digit_def digit_value_def isspace_def newline_def)

declare str_nat.simps [simp del]

lemma ascii_digit_not_special:
  assumes "is_ascii_digit ch"
  shows "ch \<noteq> CHR ''_''" "\<not> isspace ch" "ch \<noteq> CHR ''-''" "ch \<noteq> CHR ''+''"
    "ch \<noteq> newline" "ch \<noteq> CHR ''=''" "ch \<noteq> CHR '',''" "ch \<noteq> CHR ''(''" "ch \<noteq> CHR '')''"
  using assms by (auto simp: is_ascii_digit_def isspace_def newline_def)

lemma str_nat_digits: "list_all is_ascii_digit (str_nat n)"
proof (induction n rule: str_nat.induct)
  case (1 n)
  show ?case
  proof (cases "n < 10")
    case True
    then show ?thesis by (simp add: str_nat.simps [of n] digit_char_props)
  next
    case False
    then show ?thesis using 1 by (simp add: str_nat.simps [of n] digit_char_props)
  qed
qed

lemma str_nat_nonempty: "str_nat n \<noteq> []"
  by (simp add: str_nat.simps [of n])

lemma digits_ok_all: "list_all is_ascii_digit s \<Longrightarrow> s \<noteq> [] \<Longrightarrow> digits_ok s"
  by (induction s rule: digits_ok.induct) (auto dest: ascii_digit_not_special(1))

lemma digits_value_snoc:
  "ch \<noteq> CHR ''_'' \<Longrightarrow> digits_value (s @ [ch]) = 10 * digits_value s + digit_value ch"
  by (simp add: digits_value_def)

lemma digits_value_str_nat: "digits_value (str_nat n) = int n"
proof (induction n rule: str_nat.induct)
  case (1 n)
  show ?case
  proof (cases "n < 10")
    case True
    then show ?thesis
      by (simp add: str_nat.simps [of n] digits_value_def digit_char_props)
  next
    case False
    have m: "n mod 10 < 10" by simp
    have e: "10 * int (n div 10) + int (n mod 10) = int n" by presburger
    show ?thesis
      using False 1 e
      by (simp add: str_nat.simps [of n] digits_value_snoc digit_char_props [OF m])
  qed
qed

lemma filter_digits:
  "list_all is_ascii_digit s \<Longrightarrow> filter (\<lambda>ch. ch \<noteq> CHR ''_'') s = s"
  by (induction s) (auto dest: ascii_digit_not_special(1))

lemma length_str_nat: "0 < k \<Longrightarrow> (length (str_nat n) \<le> k) = (n < 10 ^ k)"
proof (induction n arbitrary: k rule: str_nat.induct)
  case (1 n)
  show ?case
  proof (cases "n < 10")
    case True
    have "(10::nat) ^ 1 \<le> 10 ^ k"
      by (rule power_increasing) (use 1(2) in simp_all)
    then have "n < 10 ^ k" using True by simp
    then show ?thesis using True 1(2) by (simp add: str_nat.simps [of n])
  next
    case False
    show ?thesis
    proof (cases "k = 1")
      case True
      then show ?thesis using False by (simp add: str_nat.simps [of n] str_nat_nonempty)
    next
      case k: False
      then obtain j where j: "k = Suc j" "0 < j" using 1(2) by (cases k) auto
      have "(length (str_nat (n div 10)) \<le> j) = (n div 10 < 10 ^ j)"
        by (rule 1(1) [OF False j(2)])
      moreover have "(n div 10 < 10 ^ j) = (n < 10 ^ Suc j)"
        by (simp add: div_less_iff_less_mult mult.commute)
      ultimately show ?thesis using False by (simp add: str_nat.simps [of n] j(1))
    qed
  qed
qed

text \<open>An integer fits the limit of the conversions when it is below \<open>10 ^ 4300\<close> in size.\<close>

lemma fits_iff: "fits n = (\<bar>n\<bar> < 10 ^ max_str_digits)"
proof -
  have "(length (str_nat (nat \<bar>n\<bar>)) \<le> max_str_digits) = (nat \<bar>n\<bar> < 10 ^ max_str_digits)"
    by (rule length_str_nat) (simp add: max_str_digits_def)
  also have "\<dots> = (\<bar>n\<bar> < 10 ^ max_str_digits)"
    by (simp add: nat_less_iff)
  finally show ?thesis by (simp add: fits_def)
qed

lemma str_py_eq: "str_py n = (if fits n then Some (decimal n) else None)"
  by (auto simp: str_py_def fits_def decimal_def Let_def)

lemma trim_pad:
  assumes "list_all P a" "list_all P b" "s \<noteq> []" "\<not> P (hd s)" "\<not> P (last s)"
  shows "rev (dropWhile P (rev (dropWhile P (a @ s @ b)))) = s"
proof -
  have 1: "dropWhile P (a @ s @ b) = s @ b"
    using assms(1,3,4) by (cases s) (simp_all add: dropWhile_append2 list_all_iff)
  obtain ys y where s: "s = ys @ [y]"
    using assms(3) by (cases s rule: rev_cases) auto
  have "dropWhile P (rev b @ y # rev ys) = dropWhile P (y # rev ys)"
    by (rule dropWhile_append2) (use assms(2) in \<open>simp add: list_all_iff\<close>)
  then have "dropWhile P (rev (s @ b)) = rev s"
    using assms(5) by (simp add: s)
  then show ?thesis by (simp add: 1)
qed

lemma strip_pad:
  assumes "list_all isspace a" "list_all isspace b" "s \<noteq> []"
    "\<not> isspace (hd s)" "\<not> isspace (last s)"
  shows "strip (a @ s @ b) = s"
  unfolding strip_def using assms by (rule trim_pad)

lemma int_strip_pad:
  assumes "list_all int_isspace a" "list_all int_isspace b" "s \<noteq> []"
    "\<not> int_isspace (hd s)" "\<not> int_isspace (last s)"
  shows "int_strip (a @ s @ b) = s"
  unfolding int_strip_def using assms by (rule trim_pad)

lemma strip_clean:
  "s \<noteq> [] \<Longrightarrow> \<not> isspace (hd s) \<Longrightarrow> \<not> isspace (last s) \<Longrightarrow> strip s = s"
  using strip_pad [of "[]" "[]" s] by simp

lemma int_isspace_isspace: "int_isspace ch \<Longrightarrow> isspace ch"
  by (auto simp: int_isspace_def isspace_def)

lemma int_strip_clean:
  "s \<noteq> [] \<Longrightarrow> \<not> isspace (hd s) \<Longrightarrow> \<not> isspace (last s) \<Longrightarrow> int_strip s = s"
  using int_strip_pad [of "[]" "[]" s] int_isspace_isspace by auto

lemma str_nat_ends:
  "is_ascii_digit (hd (str_nat n))" "is_ascii_digit (last (str_nat n))"
  using str_nat_digits [of n] str_nat_nonempty [of n]
  by (auto simp: list_all_iff)

lemma decimal_nonempty: "decimal n \<noteq> []"
  by (simp add: decimal_def str_nat_nonempty)

lemma decimal_ends: "\<not> isspace (hd (decimal n))" "\<not> isspace (last (decimal n))"
  using str_nat_ends [of "nat \<bar>n\<bar>"] str_nat_nonempty
  by (auto simp: decimal_def isspace_def dest: ascii_digit_not_special(2))

lemma decimal_chars:
  "ch \<in> set (decimal n) \<Longrightarrow> ch = CHR ''-'' \<or> is_ascii_digit ch"
  using str_nat_digits by (auto simp: decimal_def list_all_iff split: if_splits)

lemma int_py_minus:
  "int_strip s = CHR ''-'' # cs \<Longrightarrow>
   int_py s = (if \<not> digits_ok cs then None
               else if max_str_digits < length (filter (\<lambda>ch. ch \<noteq> CHR ''_'') cs) then None
               else Some (- digits_value cs))"
  by (simp add: int_py_def)

lemma int_py_plus:
  "int_strip s = CHR ''+'' # cs \<Longrightarrow>
   int_py s = (if \<not> digits_ok cs then None
               else if max_str_digits < length (filter (\<lambda>ch. ch \<noteq> CHR ''_'') cs) then None
               else Some (digits_value cs))"
  by (simp add: int_py_def)

lemma int_py_unsigned:
  "int_strip s = t \<Longrightarrow> t = ch # cs \<Longrightarrow> ch \<noteq> CHR ''-'' \<Longrightarrow> ch \<noteq> CHR ''+'' \<Longrightarrow>
   int_py s = (if \<not> digits_ok t then None
               else if max_str_digits < length (filter (\<lambda>ch. ch \<noteq> CHR ''_'') t) then None
               else Some (digits_value t))"
  by (simp add: int_py_def)

lemma int_py_clean:
  assumes "int_strip s = decimal n" "fits n"
  shows "int_py s = Some n"
proof -
  let ?ds = "str_nat (nat \<bar>n\<bar>)"
  obtain ch cs where c: "?ds = ch # cs"
    using str_nat_nonempty [of "nat \<bar>n\<bar>"] by (cases ?ds) auto
  have d: "is_ascii_digit ch"
    using str_nat_digits [of "nat \<bar>n\<bar>"] by (simp add: c)
  have ok: "digits_ok ?ds"
    by (simp add: digits_ok_all str_nat_digits str_nat_nonempty)
  have v: "digits_value ?ds = \<bar>n\<bar>"
    by (simp add: digits_value_str_nat)
  have len: "\<not> max_str_digits < length (filter (\<lambda>ch. ch \<noteq> CHR ''_'') ?ds)"
    using assms(2) by (simp add: filter_digits str_nat_digits fits_def)
  show ?thesis
  proof (cases "n < 0")
    case True
    then have "int_strip s = CHR ''-'' # ?ds"
      by (simp add: assms(1) decimal_def)
    from int_py_minus [OF this] have "int_py s = Some (- digits_value ?ds)"
      using ok len by simp
    then show ?thesis using True by (simp only: v) simp
  next
    case False
    then have "int_strip s = ?ds"
      by (simp add: assms(1) decimal_def)
    from int_py_unsigned [OF this c ascii_digit_not_special(3,4) [OF d]]
    have "int_py s = Some (digits_value ?ds)"
      using ok len by simp
    then show ?thesis using False by (simp only: v) simp
  qed
qed

lemma int_py_decimal: "fits n \<Longrightarrow> int_py (decimal n) = Some n"
  by (rule int_py_clean) (simp_all add: int_strip_clean decimal_nonempty decimal_ends)

text \<open>
  \<open>int\<close> refuses a numeral of more than 4300 digits, and it does not skip the
  separators U+001C to U+001F, which \<open>str.strip\<close> removes.
\<close>

lemma int_py_too_long:
  assumes "\<not> fits n"
  shows "int_py (decimal n) = None"
proof -
  let ?ds = "str_nat (nat \<bar>n\<bar>)"
  obtain ch cs where c: "?ds = ch # cs"
    using str_nat_nonempty [of "nat \<bar>n\<bar>"] by (cases ?ds) auto
  have d: "is_ascii_digit ch"
    using str_nat_digits [of "nat \<bar>n\<bar>"] by (simp add: c)
  have len: "max_str_digits < length (filter (\<lambda>ch. ch \<noteq> CHR ''_'') ?ds)"
    using assms by (simp add: filter_digits str_nat_digits fits_def)
  have st: "int_strip (decimal n) = decimal n"
    by (simp add: int_strip_clean decimal_nonempty decimal_ends)
  show ?thesis
  proof (cases "n < 0")
    case True
    then have "decimal n = CHR ''-'' # ?ds"
      by (simp add: decimal_def)
    with st have "int_strip (decimal n) = CHR ''-'' # ?ds"
      by simp
    from int_py_minus [OF this] show ?thesis
      using len by simp
  next
    case False
    then have "decimal n = ?ds"
      by (simp add: decimal_def)
    with st have "int_strip (decimal n) = ?ds"
      by simp
    from int_py_unsigned [OF this c ascii_digit_not_special(3,4) [OF d]] show ?thesis
      using len by simp
  qed
qed

lemma int_py_separator:
  "strip [CHR 0x1C, CHR ''7''] = ''7'' \<and> int_py ''7'' = Some 7
   \<and> int_py [CHR 0x1C, CHR ''7''] = None"
  by code_simp

lemma isspace_space: "isspace CHR '' ''" "isspace newline"
  by (simp_all add: isspace_def newline_def)

lemma strip_space_decimal: "strip (CHR '' '' # decimal n) = decimal n"
  using strip_pad [of "[CHR '' '']" "[]" "decimal n"]
  by (simp add: decimal_nonempty decimal_ends isspace_space)

lemma int_strip_space_decimal: "int_strip (CHR '' '' # decimal n) = decimal n"
proof -
  have "\<not> int_isspace (hd (decimal n))" "\<not> int_isspace (last (decimal n))"
    using decimal_ends [of n] int_isspace_isspace by blast+
  then show ?thesis
    using int_strip_pad [of "[CHR '' '']" "[]" "decimal n"]
    by (simp add: decimal_nonempty int_isspace_def)
qed

lemma int_py_space_decimal: "fits n \<Longrightarrow> int_py (CHR '' '' # decimal n) = Some n"
  by (rule int_py_clean) (simp_all add: int_strip_space_decimal)

lemma isdigit_decimal: "0 \<le> n \<Longrightarrow> isdigit (decimal n)"
  using str_nat_digits [of "nat \<bar>n\<bar>"]
  by (auto simp: isdigit_def decimal_def str_nat_nonempty list_all_iff)

lemma isdigit_lstrip_decimal: "isdigit (lstrip_minus (decimal n))"
proof -
  obtain ch cs where c: "str_nat (nat \<bar>n\<bar>) = ch # cs"
    using str_nat_nonempty [of "nat \<bar>n\<bar>"] by (cases "str_nat (nat \<bar>n\<bar>)") auto
  have d: "list_all is_ascii_digit (ch # cs)"
    using str_nat_digits [of "nat \<bar>n\<bar>"] by (simp only: c)
  then have m: "ch \<noteq> CHR ''-''" using ascii_digit_not_special(3) by simp
  have "decimal n = (if n < 0 then CHR ''-'' # ch # cs else ch # cs)"
    by (simp only: decimal_def c)
  then have "lstrip_minus (decimal n) = ch # cs"
    using m by (simp add: lstrip_minus_def)
  moreover have "isdigit (ch # cs)"
    using d by (auto simp: isdigit_def list_all_iff)
  ultimately show ?thesis by simp
qed

lemma set_int_strip: "set (int_strip s) \<subseteq> set s"
proof -
  have "set (dropWhile P xs) \<subseteq> set xs" for P and xs :: string
    by (meson set_dropWhileD subsetI)
  then show ?thesis
    unfolding int_strip_def by (metis set_rev subset_trans)
qed

lemma digits_ok_chars:
  "digits_ok s \<Longrightarrow> ch \<in> set s \<Longrightarrow> is_ascii_digit ch \<or> ch = CHR ''_''"
  by (induction s rule: digits_ok.induct) (auto split: if_splits)

lemma digit_value_nonneg: "is_ascii_digit ch \<Longrightarrow> 0 \<le> digit_value ch"
  by (auto simp: is_ascii_digit_def digit_value_def)

lemma foldl_digits_nonneg:
  "0 \<le> acc \<Longrightarrow> \<forall>ch \<in> set s. is_ascii_digit ch \<Longrightarrow>
   0 \<le> foldl (\<lambda>acc ch. 10 * acc + digit_value ch) acc s"
  by (induction s arbitrary: acc) (simp_all add: digit_value_nonneg)

lemma digits_value_nonneg: "digits_ok s \<Longrightarrow> 0 \<le> digits_value s"
  unfolding digits_value_def
  by (rule foldl_digits_nonneg) (use digits_ok_chars in auto)

lemma int_py_nonneg:
  assumes "int_py s = Some n" "CHR ''-'' \<notin> set s"
  shows "0 \<le> n"
proof -
  have nm: "CHR ''-'' \<notin> set (int_strip s)"
    using assms(2) set_int_strip by blast
  show ?thesis
  proof (cases "int_strip s")
    case Nil
    with assms(1) show ?thesis by (simp add: int_py_def)
  next
    case (Cons ch cs)
    with nm have c: "ch \<noteq> CHR ''-''" by auto
    show ?thesis
    proof (cases "ch = CHR ''+''")
      case True
      with Cons have "int_strip s = CHR ''+'' # cs" by simp
      from int_py_plus [OF this] assms(1) have "digits_ok cs" "n = digits_value cs"
        by (simp_all split: if_splits)
      then show ?thesis by (simp add: digits_value_nonneg)
    next
      case False
      from int_py_unsigned [OF Cons refl c False] assms(1)
      have "digits_ok (ch # cs)" "n = digits_value (ch # cs)"
        by (simp_all split: if_splits)
      then show ?thesis by (simp only: digits_value_nonneg)
    qed
  qed
qed

lemma isdigit_no_minus: "isdigit s \<Longrightarrow> CHR ''-'' \<notin> set s"
proof
  assume "isdigit s" "CHR ''-'' \<in> set s"
  then have "is_ascii_digit CHR ''-'' \<or> CHR ''-'' \<in> set [CHR 0xB2, CHR 0xB3, CHR 0xB9]"
    unfolding isdigit_def list_all_iff by blast
  then show False by (simp add: is_ascii_digit_def)
qed

section \<open>Reading back what was written\<close>

lemma split_on_nosep: "sep \<notin> set a \<Longrightarrow> split_on sep a = [a]"
  by (induction a) auto

lemma split_on_append:
  "sep \<notin> set a \<Longrightarrow> split_on sep (a @ sep # b) = a # split_on sep b"
  by (induction a) auto

lemma file_lines_append:
  "newline \<notin> set l \<Longrightarrow> file_lines (l @ newline # rest) = (l @ [newline]) # file_lines rest"
  by (induction l) auto

lemma strip_line: "clean l \<Longrightarrow> strip (l @ [newline]) = l"
  using strip_pad [of "[]" "[newline]" l] by (simp add: clean_def isspace_space)

lemma stripped_lines_concat:
  "\<forall>l \<in> set ls. clean l \<Longrightarrow>
   stripped_lines (concat (map (\<lambda>l. l @ [newline]) ls)) = ls"
proof (induction ls)
  case Nil
  then show ?case by (simp add: stripped_lines_def)
next
  case (Cons l ls)
  then have c: "clean l" and ih: "stripped_lines (concat (map (\<lambda>l. l @ [newline]) ls)) = ls"
    by simp_all
  from c have n: "newline \<notin> set l" and ne: "l \<noteq> []" by (simp_all add: clean_def)
  show ?case
    using ih ne by (simp add: stripped_lines_def file_lines_append [OF n] strip_line [OF c])
qed

lemma entry_line_body:
  "entry_line ((r, c), v) =
     (if fits r \<and> fits c \<and> fits v then Some (entry_body ((r, c), v) @ [newline]) else None)"
  by (simp add: entry_line_def entry_body_def str_py_eq)

lemma decimal_free:
  "newline \<notin> set (decimal n)" "CHR ''='' \<notin> set (decimal n)" "CHR '','' \<notin> set (decimal n)"
proof -
  have "ch \<noteq> newline \<and> ch \<noteq> CHR ''='' \<and> ch \<noteq> CHR '',''" if "ch \<in> set (decimal n)" for ch
    using decimal_chars [OF that] ascii_digit_not_special(5,6,7) [of ch]
    by (auto simp: newline_def)
  then show "newline \<notin> set (decimal n)" "CHR ''='' \<notin> set (decimal n)"
    "CHR '','' \<notin> set (decimal n)"
    by blast+
qed

lemma clean_header: "clean (header_line ''rows'' n)" "clean (header_line ''cols'' n)"
  using decimal_free(1) [of n] decimal_ends(2) [of n] decimal_nonempty [of n]
  by (auto simp: header_line_def clean_def isspace_def newline_def)

lemma clean_entry_body: "clean (entry_body kv)"
  using decimal_free(1)
  by (auto simp: clean_def entry_body_def isspace_def newline_def split: prod.splits)

lemma split_header:
  "split_on CHR ''='' (header_line ''rows'' n) = [''rows'', decimal n]"
  "split_on CHR ''='' (header_line ''cols'' n) = [''cols'', decimal n]"
  using split_on_append [of "CHR ''=''" "''rows''" "decimal n"]
    split_on_append [of "CHR ''=''" "''cols''" "decimal n"]
  by (simp_all add: header_line_def split_on_nosep decimal_free)

lemma entry_body_parts:
  "startswith (entry_body kv) CHR ''(''" "endswith (entry_body kv) CHR '')''"
  "split_on CHR '','' (slice_inner (entry_body ((r, c), v))) =
     [decimal r, CHR '' '' # decimal c, CHR '' '' # decimal v]"
proof -
  show "startswith (entry_body kv) CHR ''(''" "endswith (entry_body kv) CHR '')''"
    by (simp_all add: entry_body_def startswith_def endswith_def split: prod.splits)
  have s: "slice_inner (entry_body ((r, c), v)) =
      decimal r @ CHR '','' # (CHR '' '' # decimal c) @ CHR '','' # (CHR '' '' # decimal v)"
    by (simp add: slice_inner_def entry_body_def butlast_append)
  show "split_on CHR '','' (slice_inner (entry_body ((r, c), v))) =
     [decimal r, CHR '' '' # decimal c, CHR '' '' # decimal v]"
    unfolding s by (simp add: split_on_append split_on_nosep decimal_free)
qed

lemma readFile_entry_body:
  "fits r \<Longrightarrow> fits c \<Longrightarrow> fits v \<Longrightarrow>
   readFile_entry rows' cols' (entry_body ((r, c), v)) m =
     (if r \<ge> rows' \<or> c \<ge> cols' then Inl FormatError else Inr (setElement_code m r c v))"
  by (simp add: readFile_entry_def entry_body_parts int_py_decimal int_py_space_decimal)

lemma load_entry_body:
  "fits r \<Longrightarrow> fits c \<Longrightarrow> fits v \<Longrightarrow> 0 \<le> r \<Longrightarrow> 0 \<le> c \<Longrightarrow>
   load_entry (entry_body ((r, c), v)) d = Inr (DAList.update (r, c) v d)"
  by (simp add: load_entry_def entry_body_parts strip_space_decimal strip_clean decimal_nonempty
      decimal_ends isdigit_decimal isdigit_lstrip_decimal int_py_decimal)

lemma foldl_setElement_items:
  assumes "distinct (map fst (items (data m) @ xs))" "\<forall>(k, v) \<in> set xs. v \<noteq> 0"
  shows "items (data (foldl (\<lambda>m ((r, c), v). setElement_code m r c v) m xs)) = items (data m) @ xs
    \<and> rows (foldl (\<lambda>m ((r, c), v). setElement_code m r c v) m xs) = rows m
    \<and> cols (foldl (\<lambda>m ((r, c), v). setElement_code m r c v) m xs) = cols m"
  using assms
proof (induction xs arbitrary: m)
  case Nil
  then show ?case by simp
next
  case (Cons x xs)
  obtain r c v where x: "x = ((r, c), v)" by (metis prod.collapse)
  from Cons.prems have v: "v \<noteq> 0" and fresh: "(r, c) \<notin> fst ` set (items (data m))"
    by (auto simp: x)
  let ?m = "setElement_code m r c v"
  have it: "items (data ?m) = items (data m) @ [((r, c), v)]"
    using v by (simp add: setElement_code_def items_update_fresh [OF fresh])
  have "distinct (map fst (items (data ?m) @ xs))" "\<forall>(k, v) \<in> set xs. v \<noteq> 0"
    using Cons.prems by (simp_all add: it x)
  from Cons.IH [OF this] show ?case
    by (simp add: x it rows_setElement_code cols_setElement_code)
qed

lemma foldl_update_items:
  assumes "distinct (map fst (items d @ xs))"
  shows "items (foldl (\<lambda>d (k, v). DAList.update k v d) d xs) = items d @ xs"
  using assms
proof (induction xs arbitrary: d)
  case Nil
  then show ?case by simp
next
  case (Cons x xs)
  obtain k v where x: "x = (k, v)" by (cases x)
  from Cons.prems have fresh: "k \<notin> fst ` set (items d)"
    by (auto simp: x)
  have it: "items (DAList.update k v d) = items d @ [(k, v)]"
    by (rule items_update_fresh [OF fresh])
  have "distinct (map fst (items (DAList.update k v d) @ xs))"
    using Cons.prems by (simp add: it x)
  from Cons.IH [OF this] show ?case
    by (simp add: x it)
qed

lemma for_each_readFile:
  assumes "\<forall>((r, c), v) \<in> set xs. r < rows' \<and> c < cols'"
    and "\<forall>((r, c), v) \<in> set xs. fits r \<and> fits c \<and> fits v"
  shows "for_each (map entry_body xs) (readFile_entry rows' cols') m =
     Inr (foldl (\<lambda>m ((r, c), v). setElement_code m r c v) m xs)"
  using assms
proof (induction xs arbitrary: m)
  case Nil
  then show ?case by simp
next
  case (Cons x xs)
  obtain r c v where x: "x = ((r, c), v)" by (metis prod.collapse)
  from Cons.prems have b: "r < rows'" "c < cols'" and f: "fits r" "fits c" "fits v"
    and rest: "\<forall>((r, c), v) \<in> set xs. r < rows' \<and> c < cols'"
      "\<forall>((r, c), v) \<in> set xs. fits r \<and> fits c \<and> fits v"
    by (auto simp: x)
  show ?case
    using b by (simp add: x readFile_entry_body [OF f] Cons.IH [OF rest])
qed

lemma for_each_load:
  assumes "\<forall>((r, c), v) \<in> set xs. 0 \<le> r \<and> 0 \<le> c"
    and "\<forall>((r, c), v) \<in> set xs. fits r \<and> fits c \<and> fits v"
  shows "for_each (map entry_body xs) load_entry d =
     Inr (foldl (\<lambda>d (k, v). DAList.update k v d) d xs)"
  using assms
proof (induction xs arbitrary: d)
  case Nil
  then show ?case by simp
next
  case (Cons x xs)
  obtain r c v where x: "x = ((r, c), v)" by (metis prod.collapse)
  from Cons.prems have b: "0 \<le> r" "0 \<le> c" and f: "fits r" "fits c" "fits v"
    and rest: "\<forall>((r, c), v) \<in> set xs. 0 \<le> r \<and> 0 \<le> c"
      "\<forall>((r, c), v) \<in> set xs. fits r \<and> fits c \<and> fits v"
    by (auto simp: x)
  show ?case
    by (simp add: x load_entry_body [OF f b] Cons.IH [OF rest])
qed

lemma those_entry_lines:
  "those (map entry_line xs) =
     (if list_all (\<lambda>((r, c), v). fits r \<and> fits c \<and> fits v) xs
      then Some (map (\<lambda>kv. entry_body kv @ [newline]) xs) else None)"
proof (induction xs)
  case Nil
  then show ?case by simp
next
  case (Cons x xs)
  obtain r c v where x: "x = ((r, c), v)" by (metis prod.collapse)
  show ?case by (simp add: x entry_line_body Cons.IH)
qed

text \<open>
  The writers succeed exactly on the printable matrices, and write \<open>text_of\<close> then.
\<close>

lemma writeToFile_eq: "writeToFile m = (if printable m then Some (text_of m) else None)"
proof -
  have "concat (map (\<lambda>kv. entry_body kv @ [newline]) xs) =
      concat (map (\<lambda>l. l @ [newline]) (map entry_body xs))" for xs
    by (simp add: comp_def)
  then show ?thesis
    by (simp add: writeToFile_def str_py_eq those_entry_lines printable_def text_of_def
        text_lines_def header_line_def comp_def)
qed

lemma save_to_file_eq: "save_to_file m = writeToFile m"
  by (simp add: save_to_file_def writeToFile_def)

lemma stripped_lines_text_of: "stripped_lines (text_of m) = text_lines m"
  unfolding text_of_def
  by (rule stripped_lines_concat) (auto simp: text_lines_def clean_header clean_entry_body)

lemma printable_items:
  "printable m \<Longrightarrow> \<forall>((r, c), v) \<in> set (items (data m)). fits r \<and> fits c \<and> fits v"
  by (simp add: printable_def list_all_iff)

lemma readFile_text_of:
  assumes "upper_ok m" "printable m"
  shows "readFile (text_of m) = Inr m"
proof -
  let ?xs = "items (data m)"
  let ?m0 = "SparseMatrix_code (rows m) (cols m)"
  let ?R = "foldl (\<lambda>m ((r, c), v). setElement_code m r c v) ?m0 ?xs"
  have b: "\<forall>((r, c), v) \<in> set ?xs. r < rows m \<and> c < cols m"
    and nz: "\<forall>(k, v) \<in> set ?xs. v \<noteq> 0"
    using assms(1) by (auto simp: upper_ok_def list_all_iff)
  have f: "fits (rows m)" "fits (cols m)"
    using assms(2) by (simp_all add: printable_def)
  have eq: "readFile (text_of m) = Inr ?R"
    by (simp add: readFile_def stripped_lines_text_of text_lines_def split_header
        int_py_decimal [OF f(1)] int_py_decimal [OF f(2)]
        for_each_readFile [OF b printable_items [OF assms(2)]])
  have d0: "items (data ?m0) = []"
    by (simp add: SparseMatrix_code_def items_empty)
  have "distinct (map fst (items (data ?m0) @ ?xs))"
    by (simp add: d0 distinct_items)
  from foldl_setElement_items [OF this nz]
  have "items (data ?R) = ?xs" "rows ?R = rows m" "cols ?R = cols m"
    by (simp_all add: d0 SparseMatrix_code_def items_empty)
  then have "?R = m"
    using alist_items_eq [of "data ?R" "data m"] by simp
  with eq show ?thesis by simp
qed

lemma load_from_file_text_of:
  assumes "lower_ok m" "printable m"
  shows "load_from_file (text_of m) = Inr m"
proof -
  let ?xs = "items (data m)"
  let ?d = "foldl (\<lambda>d (k, v). DAList.update k v d) DAList.empty ?xs"
  have b: "\<forall>((r, c), v) \<in> set ?xs. 0 \<le> r \<and> 0 \<le> c"
    using assms(1) by (auto simp: lower_ok_def list_all_iff)
  have f: "fits (rows m)" "fits (cols m)"
    using assms(2) by (simp_all add: printable_def)
  have h: "header_value (text_lines m) 0 = Some (rows m)"
    "header_value (text_lines m) (Suc 0) = Some (cols m)"
    by (simp_all add: header_value_def text_lines_def split_header strip_clean decimal_nonempty
        decimal_ends int_py_decimal [OF f(1)] int_py_decimal [OF f(2)])
  have dr: "drop 2 (text_lines m) = map entry_body ?xs"
    by (simp add: text_lines_def)
  have eq: "load_from_file (text_of m) =
      Inr (SparseMatrix_integral (rows m) (cols m) (Some ?d))"
    by (simp add: load_from_file_def stripped_lines_text_of Let_def h dr
        for_each_load [OF b printable_items [OF assms(2)]])
  have "distinct (map fst (items DAList.empty @ ?xs))"
    by (simp add: items_empty distinct_items)
  from foldl_update_items [OF this] have "items ?d = ?xs"
    by (simp add: items_empty)
  then have "?d = data m" by (rule alist_items_eq)
  then have "SparseMatrix_integral (rows m) (cols m) (Some ?d) = m"
    by (simp add: SparseMatrix_integral_def items_def DAList.alist_eq_iff DAList.empty.rep_eq)
  with eq show ?thesis by simp
qed

lemma not_fits_huge: "\<not> fits huge"
  by (simp add: fits_iff huge_def)

lemma invariants_m_huge: "invariants m_huge"
  by (simp add: invariants_def m_huge_def items_update_empty in_bounds_def huge_def)

text \<open>
  Claim C6 says that \<open>parse(format(m))\<close> succeeds for every matrix \<open>m\<close> that satisfies
  the data-model invariants. The writers format every number with \<open>str\<close>, which raises
  \<open>ValueError\<close> for a number of more than 4300 digits: for the 1 by 1 matrix that stores
  \<open>10 ^ 4300\<close> (a 1 and 4300 zeros) at (0, 0), which satisfies the invariants, neither \<open>writeToFile\<close> nor
  \<open>save_to_file\<close> produces a text.
\<close>

theorem format_huge_counterexample:
  "invariants m_huge \<and> rows m_huge = 1 \<and> cols m_huge = 1
   \<and> DAList.lookup (data m_huge) (0, 0) = Some (10 ^ max_str_digits)
   \<and> writeToFile m_huge = None \<and> save_to_file m_huge = None"
proof -
  have "\<not> printable m_huge"
    by (simp add: printable_def m_huge_def items_update_empty not_fits_huge)
  then have "writeToFile m_huge = None" "save_to_file m_huge = None"
    by (simp_all add: save_to_file_eq writeToFile_eq)
  moreover have "DAList.lookup (data m_huge) (0, 0) = Some (10 ^ max_str_digits)"
    by (simp add: m_huge_def huge_def)
  ultimately show ?thesis
    using invariants_m_huge by (simp add: m_huge_def)
qed

text \<open>
  Claim C6 (round trip), amended. For every matrix \<open>m\<close> that satisfies the data-model
  invariants and whose rows, cols, keys and values all have at most 4300 decimal digits
  (\<open>printable m\<close>), both writers produce the same text, and reading that text succeeds
  and returns \<open>m\<close> itself: the same rows, the same cols and the same dictionary,
  whatever the order of its entries. This holds for \<open>readFile\<close> after \<open>writeToFile\<close> and
  for \<open>load_from_file\<close> after \<open>save_to_file\<close>.
\<close>

theorem parse_format_roundtrip:
  assumes "invariants m" "printable m"
  shows "\<exists>t. writeToFile m = Some t \<and> readFile t = Inr m
           \<and> save_to_file m = Some t \<and> load_from_file t = Inr m"
  using invariants_upper_lower [OF assms(1)] assms(2)
  by (simp add: save_to_file_eq writeToFile_eq readFile_text_of load_from_file_text_of)

text \<open>
  The text written for \<open>m_diag\<close>, and reading it back.
\<close>

theorem parse_format_roundtrip_witness:
  "invariants m_diag \<and> printable m_diag
   \<and> (\<exists>t. writeToFile m_diag = Some t \<and> readFile t = Inr m_diag
          \<and> save_to_file m_diag = Some t \<and> load_from_file t = Inr m_diag)
   \<and> writeToFile m_diag = Some (''rows=2'' @ [newline] @ ''cols=2'' @ [newline]
        @ ''(0, 0, 1)'' @ [newline] @ ''(1, 1, 2)'' @ [newline])"
proof -
  have w: "writeToFile m_diag = Some (''rows=2'' @ [newline] @ ''cols=2'' @ [newline]
        @ ''(0, 0, 1)'' @ [newline] @ ''(1, 1, 2)'' @ [newline])"
    unfolding m_diag_def by code_simp
  have p: "printable m_diag"
    using w by (simp add: writeToFile_eq split: if_splits)
  show ?thesis
    using invariants_m_diag p parse_format_roundtrip [OF invariants_m_diag p] w by simp
qed

section \<open>What the readers accept\<close>

text \<open>
  Claim C4 says that a text with an entry whose row is not below \<open>rows\<close> (or whose
  column is not below \<open>cols\<close>) is rejected with \<open>FormatError\<close>. \<open>load_from_file\<close> of
  src/integral-file compares no coordinate with the shape: for the text of the claim,
  \<open>rows=1\<close>, \<open>cols=1\<close>, \<open>(1,0,5)\<close>, it returns a 1 by 1 matrix that stores 5 at (1, 0), which
  breaks the invariants.
\<close>

theorem load_from_file_out_of_bounds:
  "load_from_file text_oob = Inr m_oob
   \<and> rows m_oob = 1 \<and> cols m_oob = 1 \<and> DAList.lookup (data m_oob) (1, 0) = Some 5
   \<and> \<not> invariants m_oob"
proof -
  have "load_from_file text_oob = Inr m_oob"
    unfolding text_oob_def m_oob_def by code_simp
  moreover have "\<not> invariants m_oob"
    by (simp add: invariants_def m_oob_def items_update_empty in_bounds_def)
  ultimately show ?thesis by (simp add: m_oob_def)
qed

lemma for_each_fails:
  assumes "x \<in> set xs" "\<And>s. body x s = Inl e"
    and "\<And>y s e'. body y s = Inl e' \<Longrightarrow> e' = e"
  shows "for_each xs body s = Inl e"
  using assms(1)
proof (induction xs arbitrary: s)
  case Nil
  then show ?case by simp
next
  case (Cons y ys)
  show ?case
  proof (cases "body y s")
    case (Inl e')
    then show ?thesis using assms(3) by simp
  next
    case (Inr s')
    show ?thesis
    proof (cases "x = y")
      case True
      with Inr assms(2) [of s] show ?thesis by simp
    next
      case False
      with Cons have "for_each ys body s' = Inl e" by simp
      with Inr show ?thesis by simp
    qed
  qed
qed

lemma readFile_entry_error: "readFile_entry R C line m = Inl e \<Longrightarrow> e = FormatError"
  by (auto simp: readFile_entry_def Let_def split: if_splits option.splits)

text \<open>
  \<open>readFile\<close> of src/code rejects the same text, and it rejects every text with an
  entry whose row or column is at or beyond the shape of the header.
\<close>

lemma readFile_rejects_text_oob: "readFile text_oob = Inl FormatError"
  unfolding text_oob_def by code_simp

lemma readFile_rejects_out_of_bounds:
  assumes "stripped_lines text = l0 # l1 # entries"
    and "split_on CHR ''='' l0 = [k0, r]" "int_py r = Some R"
    and "split_on CHR ''='' l1 = [k1, c]" "int_py c = Some C"
    and "line \<in> set entries"
    and "split_on CHR '','' (slice_inner line) = [p1, p2, p3]"
    and "int_py p1 = Some row" "int_py p2 = Some col"
    and "row \<ge> R \<or> col \<ge> C"
  shows "readFile text = Inl FormatError"
proof -
  have rej: "readFile_entry R C line m = Inl FormatError" for m
    using assms(7-10)
    by (auto simp: readFile_entry_def Let_def split: option.splits)
  have "for_each entries (readFile_entry R C) (SparseMatrix_code R C) = Inl FormatError"
    by (rule for_each_fails [where body = "readFile_entry R C", OF assms(6) rej])
      (rule readFile_entry_error)
  then show ?thesis
    by (simp add: readFile_def assms(1-5))
qed

text \<open>
  Claim C8 says that an entry with a negative row or column is rejected with
  \<open>FormatError\<close>. \<open>readFile\<close> of src/code checks \<open>row >= rows or col >= cols\<close> only: for
  every entry \<open>(row, col, v)\<close> with a negative row or column, \<open>row < rows\<close>, \<open>col < cols\<close>
  and a non-zero value, where no number has more than 4300 digits, \<open>writeToFile\<close>
  produces a text for the matrix holding this one entry, and \<open>readFile\<close> reads that text
  back as that matrix, which stores the negative key and breaks the invariants.
\<close>

theorem readFile_negative_row:
  assumes "row < 0 \<or> col < 0" "row < R" "col < C" "v \<noteq> 0"
    and "printable \<lparr>rows = R, cols = C, data = DAList.update (row, col) v DAList.empty\<rparr>"
  shows "(\<exists>t. writeToFile \<lparr>rows = R, cols = C, data = DAList.update (row, col) v DAList.empty\<rparr>
              = Some t
            \<and> readFile t
              = Inr \<lparr>rows = R, cols = C, data = DAList.update (row, col) v DAList.empty\<rparr>)
     \<and> \<not> invariants \<lparr>rows = R, cols = C, data = DAList.update (row, col) v DAList.empty\<rparr>"
proof -
  let ?m = "\<lparr>rows = R, cols = C, data = DAList.update (row, col) v DAList.empty\<rparr>"
  have "upper_ok ?m"
    using assms(2-4) by (simp add: upper_ok_def items_update_empty)
  then have "readFile (text_of ?m) = Inr ?m"
    using assms(5) by (rule readFile_text_of)
  moreover have "writeToFile ?m = Some (text_of ?m)"
    using assms(5) by (simp only: writeToFile_eq if_True)
  moreover have "\<not> invariants ?m"
    using assms(1) by (auto simp: invariants_def items_update_empty in_bounds_def)
  ultimately show ?thesis by blast
qed

text \<open>
  The text \<open>rows=2\<close>, \<open>cols=2\<close>, \<open>(-1, 0, 5)\<close> is read as a matrix storing 5 at (-1, 0).
\<close>

theorem readFile_negative_row_witness:
  "printable m_negkey
   \<and> writeToFile m_negkey = Some text_neg
   \<and> readFile text_neg = Inr m_negkey
   \<and> DAList.lookup (data m_negkey) (- 1, 0) = Some 5
   \<and> \<not> invariants m_negkey"
proof -
  have w: "writeToFile m_negkey = Some text_neg"
    unfolding m_negkey_def text_neg_def by code_simp
  have p: "printable \<lparr>rows = 2, cols = 2, data = DAList.update (- 1, 0) 5 DAList.empty\<rparr>"
    using w by (simp add: writeToFile_eq m_negkey_def split: if_splits)
  have "(- 1 :: int) < 0 \<or> (0 :: int) < 0" "(- 1 :: int) < 2" "(0 :: int) < 2" "(5 :: int) \<noteq> 0"
    by simp_all
  from readFile_negative_row [OF this p] w p show ?thesis
    by (auto simp: m_negkey_def)
qed

lemma in_set_strip:
  assumes "ch \<in> set s" "\<not> isspace ch"
  shows "ch \<in> set (strip s)"
proof -
  have d: "ch \<in> set (dropWhile isspace xs)" if "ch \<in> set xs" for xs
    using that assms(2) by (induction xs) auto
  have "ch \<in> set (rev (dropWhile isspace s))"
    using d [OF assms(1)] by simp
  from d [OF this] show ?thesis by (simp add: strip_def)
qed

lemma load_entry_error: "load_entry line d = Inl e \<Longrightarrow> e = FormatError"
  by (auto simp: load_entry_def Let_def split: if_splits option.splits)

text \<open>
  \<open>load_from_file\<close> of src/integral-file rejects that text, and it rejects every
  text with an entry whose row or column field holds a minus sign.
\<close>

lemma load_from_file_rejects_text_neg: "load_from_file text_neg = Inl FormatError"
  unfolding text_neg_def by code_simp

lemma load_from_file_rejects_negative:
  assumes "line \<in> set (drop 2 (stripped_lines text))"
    and "split_on CHR '','' (slice_inner line) = [p1, p2, p3]"
    and "CHR ''-'' \<in> set p1 \<or> CHR ''-'' \<in> set p2"
  shows "load_from_file text = Inl FormatError"
proof -
  have ns: "\<not> isspace CHR ''-''" by (simp add: isspace_def)
  have "\<not> isdigit (strip p1) \<or> \<not> isdigit (strip p2)"
    using assms(3) in_set_strip [OF _ ns] isdigit_no_minus by blast
  then have rej: "load_entry line d = Inl FormatError" for d
    using assms(2) by (auto simp: load_entry_def Let_def)
  have "for_each (drop 2 (stripped_lines text)) load_entry DAList.empty = Inl FormatError"
    by (rule for_each_fails [where body = load_entry, OF assms(1) rej])
      (rule load_entry_error)
  then show ?thesis
    by (simp add: load_from_file_def Let_def split: option.splits)
qed

text \<open>
  What the readers do establish: \<open>readFile\<close> returns no stored zero and no key at or
  beyond the shape, \<open>load_from_file\<close> returns no negative key.
\<close>

lemma upper_ok_iff:
  "upper_ok m \<longleftrightarrow>
     (\<forall>r c v. DAList.lookup (data m) (r, c) = Some v \<longrightarrow> r < rows m \<and> c < cols m \<and> v \<noteq> 0)"
  unfolding upper_ok_def by (rule list_all_items)

lemma lower_ok_iff:
  "lower_ok m \<longleftrightarrow> (\<forall>r c v. DAList.lookup (data m) (r, c) = Some v \<longrightarrow> 0 \<le> r \<and> 0 \<le> c)"
  unfolding lower_ok_def by (rule list_all_items)

lemma readFile_entry_upper:
  assumes "readFile_entry (rows m) (cols m) line m = Inr m'" "upper_ok m"
  shows "upper_ok m' \<and> rows m' = rows m \<and> cols m' = cols m"
proof -
  from assms(1) have "\<exists>r c v. r < rows m \<and> c < cols m \<and> m' = setElement_code m r c v"
    by (auto simp: readFile_entry_def Let_def not_le split: if_splits option.splits)
  then obtain r c v where b: "r < rows m" "c < cols m"
    and m': "m' = setElement_code m r c v"
    by blast
  show ?thesis
    using assms(2) b
    by (auto simp: m' upper_ok_iff lookup_setElement_code rows_setElement_code
        cols_setElement_code nonzero_def split: if_splits)
qed

lemma for_each_readFile_upper:
  assumes "for_each ls (readFile_entry R C) m = Inr m'" "upper_ok m" "rows m = R" "cols m = C"
  shows "upper_ok m' \<and> rows m' = R \<and> cols m' = C"
  using assms
proof (induction ls arbitrary: m)
  case Nil
  then show ?case by simp
next
  case (Cons l ls)
  from Cons.prems(1) obtain m1 where 1: "readFile_entry R C l m = Inr m1"
    and 2: "for_each ls (readFile_entry R C) m1 = Inr m'"
    by (auto split: sum.splits)
  from readFile_entry_upper [of m l m1] 1 Cons.prems
  have "upper_ok m1" "rows m1 = R" "cols m1 = C" by auto
  from Cons.IH [OF 2 this] show ?case .
qed

lemma readFile_upper:
  assumes "readFile text = Inr m"
  shows "upper_ok m"
proof -
  from assms obtain R C ls where
    f: "for_each ls (readFile_entry R C) (SparseMatrix_code R C) = Inr m"
    by (auto simp: readFile_def Let_def split: if_splits option.splits)
  have "upper_ok (SparseMatrix_code R C)"
    by (simp add: upper_ok_def SparseMatrix_code_def items_empty)
  from for_each_readFile_upper [OF f this] show ?thesis
    by (simp add: SparseMatrix_code_def)
qed

lemma load_entry_lower:
  assumes "load_entry line d = Inr d'" "\<forall>r c v. DAList.lookup d (r, c) = Some v \<longrightarrow> 0 \<le> r \<and> 0 \<le> c"
  shows "\<forall>r c v. DAList.lookup d' (r, c) = Some v \<longrightarrow> 0 \<le> r \<and> 0 \<le> c"
proof -
  from assms(1) obtain rs cs r c x where
    i: "isdigit rs" "isdigit cs" "int_py rs = Some r" "int_py cs = Some c"
    and d': "d' = DAList.update (r, c) x d"
    by (auto simp: load_entry_def Let_def split: if_splits option.splits)
  have "0 \<le> r" "0 \<le> c"
    using i int_py_nonneg isdigit_no_minus by blast+
  then show ?thesis
    using assms(2) by (auto simp: d' lookup_update split: if_splits)
qed

lemma for_each_load_lower:
  assumes "for_each ls load_entry d = Inr d'"
    "\<forall>r c v. DAList.lookup d (r, c) = Some v \<longrightarrow> 0 \<le> r \<and> 0 \<le> c"
  shows "\<forall>r c v. DAList.lookup d' (r, c) = Some v \<longrightarrow> 0 \<le> r \<and> 0 \<le> c"
  using assms
proof (induction ls arbitrary: d)
  case Nil
  then show ?case by simp
next
  case (Cons l ls)
  from Cons.prems(1) obtain d1 where 1: "load_entry l d = Inr d1"
    and 2: "for_each ls load_entry d1 = Inr d'"
    by (auto split: sum.splits)
  from Cons.IH [OF 2 load_entry_lower [OF 1 Cons.prems(2)]] show ?case .
qed

lemma load_from_file_lower:
  assumes "load_from_file text = Inr m"
  shows "lower_ok m"
proof -
  from assms obtain R C ls d where
    f: "for_each ls load_entry DAList.empty = Inr d"
    and m: "m = SparseMatrix_integral R C (Some d)"
    by (auto simp: load_from_file_def Let_def split: option.splits sum.splits)
  have "\<forall>r c v. DAList.lookup d (r, c) = Some v \<longrightarrow> 0 \<le> r \<and> 0 \<le> c"
    by (rule for_each_load_lower [OF f]) simp
  then show ?thesis
    by (simp add: lower_ok_iff m data_SparseMatrix_integral)
qed

section \<open>The invariants\<close>

lemma invariants_empty_code: "invariants (SparseMatrix_code r c)"
  by (simp add: invariants_def SparseMatrix_code_def items_def DAList.empty.rep_eq)

lemma invariants_empty_integral: "invariants (SparseMatrix_integral r c None)"
  by (simp add: invariants_def SparseMatrix_integral_def items_def DAList.empty.rep_eq)

lemma in_bounds_setElement_code:
  "in_bounds (setElement_code m r c v) r' c' = in_bounds m r' c'"
  by (simp add: in_bounds_def rows_setElement_code cols_setElement_code)

lemma invariants_setElement_code:
  assumes "invariants m" "in_bounds m r c"
  shows "invariants (setElement_code m r c v)"
  using assms
  by (auto simp: invariants_iff in_bounds_setElement_code lookup_setElement_code nonzero_def
      split: if_splits)

lemma invariants_setElement_integral:
  assumes "invariants m" "setElement_integral m r c v = Inr m'"
  shows "invariants m'"
proof -
  from assms(2) have ib: "in_bounds m r c"
    by (auto simp: setElement_integral_def in_bounds_not_out split: if_splits)
  from assms(2) have rc: "rows m' = rows m" "cols m' = cols m"
    and l: "DAList.lookup (data m') = (DAList.lookup (data m))((r, c) := nonzero v)"
    by (auto simp: setElement_integral_def nonzero_def dict_in_def lookup_update fun_eq_iff
        split: if_splits)
  show ?thesis
    using assms(1) ib
    by (auto simp: invariants_iff l in_bounds_def rc nonzero_def split: if_splits)
qed

lemma invariants_combined:
  assumes "invariants A" "invariants B" "rows A = rows B" "cols A = cols B"
    "rows R = rows A" "cols R = cols A"
    "\<And>pos. DAList.lookup (data R) pos =
        nonzero (f (dict_get (data A) pos 0) (dict_get (data B) pos 0))"
    "f 0 0 = 0"
  shows "invariants R"
  unfolding invariants_iff
proof (intro allI impI)
  fix r c v
  assume s: "DAList.lookup (data R) (r, c) = Some v"
  then have v: "v \<noteq> 0" and n: "f (dict_get (data A) (r, c) 0) (dict_get (data B) (r, c) 0) \<noteq> 0"
    by (auto simp: assms(7) nonzero_def split: if_splits)
  from n assms(8) have "dict_in (r, c) (data A) \<or> dict_in (r, c) (data B)"
    by (auto simp: dict_in_def dict_get_def split: option.splits)
  then have "in_bounds A r c \<or> in_bounds B r c"
    using assms(1,2) invariants_stored by blast
  then have "in_bounds R r c"
    using assms(3-6) by (auto simp: in_bounds_def)
  with v show "in_bounds R r c \<and> v \<noteq> 0" by simp
qed

lemma invariants_product:
  assumes "rows R = rA" "cols R = cB"
    "\<And>i j. DAList.lookup (data R) (i, j) =
        (if 0 \<le> i \<and> i < rA \<and> 0 \<le> j \<and> j < cB then nonzero (p i j) else None)"
  shows "invariants R"
  unfolding invariants_iff
  by (auto simp: assms in_bounds_def nonzero_def split: if_splits)

lemma invariants_add_code:
  assumes "invariants A" "invariants B" "add_code A B = Inr R"
  shows "invariants R"
proof -
  from assms(3) have s: "rows A = rows B" "cols A = cols B"
    by (auto simp: add_code_def split: if_splits)
  from add_code_lookup [OF s] assms(3) show ?thesis
    using invariants_combined [OF assms(1,2) s, where f = "(+)" and R = R] by auto
qed

lemma invariants_subtract_code:
  assumes "invariants A" "invariants B" "subtract_code A B = Inr R"
  shows "invariants R"
proof -
  from assms(3) have s: "rows A = rows B" "cols A = cols B"
    by (auto simp: subtract_code_def split: if_splits)
  from subtract_code_lookup [OF s] assms(3) show ?thesis
    using invariants_combined [OF assms(1,2) s, where f = "(-)" and R = R] by auto
qed

lemma invariants_add_integral:
  assumes "invariants A" "invariants B" "add_integral A B = Inr R"
  shows "invariants R"
proof -
  from assms(3) have s: "rows A = rows B" "cols A = cols B"
    by (auto simp: add_integral_def split: if_splits)
  from add_integral_lookup [OF s invariants_no_zero [OF assms(1)] invariants_no_zero [OF assms(2)]]
    assms(3) show ?thesis
    using invariants_combined [OF assms(1,2) s, where f = "(+)" and R = R] by auto
qed

lemma invariants_subtract_integral:
  assumes "invariants A" "invariants B" "subtract_integral A B = Inr R"
  shows "invariants R"
proof -
  from assms(3) have s: "rows A = rows B" "cols A = cols B"
    by (auto simp: subtract_integral_def split: if_splits)
  from subtract_integral_lookup [OF s invariants_no_zero [OF assms(1)]
      invariants_no_zero [OF assms(2)]] assms(3) show ?thesis
    using invariants_combined [OF assms(1,2) s, where f = "(-)" and R = R] by auto
qed

lemma invariants_multiply_code:
  assumes "multiply_code A B = Inr R"
  shows "invariants R"
proof -
  from assms have s: "cols A = rows B"
    by (auto simp: multiply_code_def split: if_splits)
  from multiply_code_lookup [OF s] assms show ?thesis
    using invariants_product [where R = R and rA = "rows A" and cB = "cols B"
        and p = "product_sum A B"] by auto
qed

lemma invariants_multiply_integral:
  assumes "invariants A" "multiply_integral A B = Inr R"
  shows "invariants R"
proof -
  from assms(2) have s: "cols A = rows B"
    by (auto simp: multiply_integral_def split: if_splits)
  from multiply_integral_lookup [OF assms(1) s] assms(2) show ?thesis
    using invariants_product [where R = R and rA = "rows A" and cB = "cols B"
        and p = "product_sum A B"] by auto
qed

text \<open>
  Claim C3 says that every matrix reachable through the public operations satisfies
  the invariants. \<open>setElement\<close> of src/code stores at any coordinate: from the empty 1 by
  1 matrix, which satisfies the invariants, writing 5 at (1, 0) gives a matrix that
  breaks them.
\<close>

theorem set_out_of_bounds_counterexample:
  "invariants (SparseMatrix_code 1 1)
   \<and> \<not> invariants (setElement_code (SparseMatrix_code 1 1) 1 0 5)"
  by (simp add: invariants_def SparseMatrix_code_def setElement_code_def items_def
      DAList.update.rep_eq DAList.empty.rep_eq in_bounds_def)

text \<open>
  Claim C3, amended. The empty matrix of either implementation satisfies the
  data-model invariants. From a matrix that satisfies them, \<open>setElement\<close> of src/code at a
  coordinate inside the shape, and every \<open>setElement\<close> of src/integral-file that
  succeeds, give a matrix that satisfies them. For operands that satisfy them, every
  result of \<open>add\<close>, \<open>subtract\<close> and \<open>multiply\<close>, of either implementation, satisfies
  them. Every matrix \<open>readFile\<close> returns stores no zero and no key at or beyond its
  shape; every matrix \<open>load_from_file\<close> returns stores no negative key.
\<close>

theorem invariants_preserved:
  "invariants (SparseMatrix_code r0 c0)
   \<and> invariants (SparseMatrix_integral r0 c0 None)
   \<and> (invariants m \<and> in_bounds m r c \<longrightarrow> invariants (setElement_code m r c v))
   \<and> (invariants m \<and> setElement_integral m r c v = Inr m' \<longrightarrow> invariants m')
   \<and> (invariants A \<and> invariants B \<longrightarrow>
        (\<forall>R. add_code A B = Inr R \<or> subtract_code A B = Inr R \<or> multiply_code A B = Inr R
           \<or> add_integral A B = Inr R \<or> subtract_integral A B = Inr R
           \<or> multiply_integral A B = Inr R \<longrightarrow> invariants R))
   \<and> (readFile t1 = Inr m1 \<longrightarrow> upper_ok m1)
   \<and> (load_from_file t2 = Inr m2 \<longrightarrow> lower_ok m2)"
  by (auto intro: invariants_empty_code invariants_empty_integral invariants_setElement_code
      invariants_setElement_integral invariants_add_code invariants_subtract_code
      invariants_multiply_code invariants_add_integral invariants_subtract_integral
      invariants_multiply_integral readFile_upper load_from_file_lower)

text \<open>
  Each part at a concrete input: the six operators on \<open>m_diag\<close> and \<open>m_neg\<close>, and
  the two readers on texts they accept.
\<close>

theorem invariants_preserved_witness:
  "invariants m_one \<and> in_bounds m_one 0 0
   \<and> invariants (setElement_code m_one 0 0 3)
   \<and> (\<exists>m'. setElement_integral m_one 0 0 3 = Inr m' \<and> invariants m')
   \<and> invariants m_diag \<and> invariants m_neg
   \<and> (\<exists>R. add_code m_diag m_neg = Inr R \<and> invariants R)
   \<and> (\<exists>R. subtract_code m_diag m_neg = Inr R \<and> invariants R)
   \<and> (\<exists>R. multiply_code m_diag m_neg = Inr R \<and> invariants R)
   \<and> (\<exists>R. add_integral m_diag m_neg = Inr R \<and> invariants R)
   \<and> (\<exists>R. subtract_integral m_diag m_neg = Inr R \<and> invariants R)
   \<and> (\<exists>R. multiply_integral m_diag m_neg = Inr R \<and> invariants R)
   \<and> readFile text_neg = Inr m_negkey \<and> upper_ok m_negkey
   \<and> load_from_file text_oob = Inr m_oob \<and> lower_ok m_oob"
proof -
  have i1: "invariants m_one"
    by (simp add: invariants_def m_one_def items_update_empty in_bounds_def)
  have b1: "in_bounds m_one 0 0" by (simp add: in_bounds_def m_one_def)
  have s1: "setElement_integral m_one 0 0 3 =
      Inr (m_one\<lparr>data := DAList.update (0, 0) 3 (data m_one)\<rparr>)"
    by (simp add: setElement_integral_def out_of_range_def m_one_def)
  have rf: "readFile text_neg = Inr m_negkey"
    unfolding text_neg_def m_negkey_def by code_simp
  have lf: "load_from_file text_oob = Inr m_oob"
    unfolding text_oob_def m_oob_def by code_simp
  note t = invariants_preserved [of 2 2 m_one 0 0 3
      "m_one\<lparr>data := DAList.update (0, 0) 3 (data m_one)\<rparr>" m_diag m_neg
      text_neg m_negkey text_oob m_oob]
  have d: "rows m_diag = rows m_neg" "cols m_diag = cols m_neg" "cols m_diag = rows m_neg"
    by (simp_all add: m_diag_def m_neg_def)
  have nz: "no_zero (data m_diag)" "no_zero (data m_neg)"
    by (simp_all add: invariants_no_zero invariants_m_diag invariants_m_neg)
  from add_code_lookup [OF d(1,2)] obtain R1 where 1: "add_code m_diag m_neg = Inr R1"
    by blast
  from subtract_code_lookup [OF d(1,2)] obtain R2 where 2: "subtract_code m_diag m_neg = Inr R2"
    by blast
  from multiply_code_lookup [OF d(3)] obtain R3 where 3: "multiply_code m_diag m_neg = Inr R3"
    by blast
  from add_integral_lookup [OF d(1,2) nz] obtain R4 where
    4: "add_integral m_diag m_neg = Inr R4"
    by blast
  from subtract_integral_lookup [OF d(1,2) nz] obtain R5 where
    5: "subtract_integral m_diag m_neg = Inr R5"
    by blast
  from multiply_integral_lookup [OF invariants_m_diag d(3)] obtain R6 where
    6: "multiply_integral m_diag m_neg = Inr R6"
    by blast
  from t i1 b1 s1 rf lf invariants_m_diag invariants_m_neg 1 2 3 4 5 6
  show ?thesis by auto
qed

section \<open>Operands are not mutated\<close>

lemma store_extends_refl: "store_extends h h"
  by (simp add: store_extends_def)

lemma take_length_le: "take (length xs) ys = xs \<Longrightarrow> length xs \<le> length ys"
proof -
  assume "take (length xs) ys = xs"
  then have "length (take (length xs) ys) = length xs" by simp
  then show ?thesis by simp
qed

lemma take_take_eq:
  assumes "take (length xs) ys = xs" "take (length ys) zs = ys"
  shows "take (length xs) zs = xs"
proof -
  have "length xs \<le> length ys"
    using assms(1) by (rule take_length_le)
  then have "take (length xs) zs = take (length xs) (take (length ys) zs)"
    by (simp add: min_def)
  then show ?thesis by (simp add: assms)
qed

lemma store_extends_trans:
  "store_extends h1 h2 \<Longrightarrow> store_extends h2 h3 \<Longrightarrow> store_extends h1 h3"
  unfolding store_extends_def by (blast intro: take_take_eq)

lemma store_extends_alloc_dict: "store_extends h (fst (alloc_dict h d))"
  by (simp add: store_extends_def alloc_dict_def)

lemma store_extends_alloc_matrix: "store_extends h (fst (alloc_matrix h ob))"
  by (simp add: store_extends_def alloc_matrix_def)

lemma store_extends_write:
  assumes "store_extends h0 h" "length (dict_store h0) \<le> a"
  shows "store_extends h0 (write_dict h a d)"
  using assms by (simp add: store_extends_def write_dict_def)

lemma store_extends_nth:
  assumes "store_extends h h'"
  shows "a < length (dict_store h) \<Longrightarrow> dict_store h' ! a = dict_store h ! a"
    and "r < length (matrix_store h) \<Longrightarrow> matrix_store h' ! r = matrix_store h ! r"
    and "length (dict_store h) \<le> length (dict_store h')"
    and "length (matrix_store h) \<le> length (matrix_store h')"
proof -
  from assms have d: "take (length (dict_store h)) (dict_store h') = dict_store h"
    and m: "take (length (matrix_store h)) (matrix_store h') = matrix_store h"
    by (simp_all add: store_extends_def)
  show "a < length (dict_store h) \<Longrightarrow> dict_store h' ! a = dict_store h ! a"
    by (metis d nth_take)
  show "r < length (matrix_store h) \<Longrightarrow> matrix_store h' ! r = matrix_store h ! r"
    by (metis m nth_take)
  show "length (dict_store h) \<le> length (dict_store h')"
    using d by (rule take_length_le)
  show "length (matrix_store h) \<le> length (matrix_store h')"
    using m by (rule take_length_le)
qed

lemma store_extends_matrix_at:
  assumes "store_extends h h'" "valid_ref h r"
  shows "matrix_at h' r = matrix_at h r" "valid_ref h' r"
proof -
  from assms(2) have r: "r < length (matrix_store h)" and a: "data_of h r < length (dict_store h)"
    by (simp_all add: valid_ref_def)
  have m: "matrix_store h' ! r = matrix_store h ! r"
    by (rule store_extends_nth(2) [OF assms(1) r])
  then have da: "data_of h' r = data_of h r" by (simp add: data_of_def)
  have d: "dict_store h' ! data_of h r = dict_store h ! data_of h r"
    by (rule store_extends_nth(1) [OF assms(1) a])
  show "matrix_at h' r = matrix_at h r"
    by (simp add: matrix_at_def rows_of_def cols_of_def dict_at_def da m d)
  show "valid_ref h' r"
    using r a store_extends_nth(3,4) [OF assms(1)] by (simp add: valid_ref_def da)
qed

lemma foldl_invariant:
  assumes "I h" "\<And>h x. I h \<Longrightarrow> I (body h x)"
  shows "I (foldl body h xs)"
  using assms(1) by (induction xs arbitrary: h) (simp_all add: assms(2))

lemma for_each_store_invariant:
  assumes "I h" "\<And>x h. I h \<Longrightarrow> I (fst (body x h))"
  shows "I (fst (for_each_store xs body h))"
  using assms(1)
proof (induction xs arbitrary: h)
  case Nil
  then show ?case by simp
next
  case (Cons x xs)
  obtain h' e where b: "body x h = (h', e)" by (cases "body x h")
  have "I h'" using assms(2) [OF Cons.prems, of x] by (simp add: b)
  then show ?case using Cons.IH [of h'] by (cases e) (simp_all add: b)
qed

lemma foldl_simulation:
  assumes "R h s" "\<And>h s x. R h s \<Longrightarrow> R (bodyH h x) (bodyP s x)"
  shows "R (foldl bodyH h xs) (foldl bodyP s xs)"
  using assms(1) by (induction xs arbitrary: h s) (simp_all add: assms(2))

lemma getElement_code_store_eq:
  "getElement_code_store h r row col = getElement_code (matrix_at h r) row col"
  by (simp add: getElement_code_store_def getElement_code_def matrix_at_def)

lemma dict_at_matrix_at: "dict_at h (data_of h r) = data (matrix_at h r)"
  by (simp add: matrix_at_def)

lemma rows_cols_matrix_at: "rows_of h r = rows (matrix_at h r)" "cols_of h r = cols (matrix_at h r)"
  by (simp_all add: matrix_at_def)

lemma write_dict_props:
  "matrix_store (write_dict h a d) = matrix_store h"
  "length (dict_store (write_dict h a d)) = length (dict_store h)"
  "data_of (write_dict h a d) r = data_of h r"
  "rows_of (write_dict h a d) r = rows_of h r"
  "cols_of (write_dict h a d) r = cols_of h r"
  "a < length (dict_store h) \<Longrightarrow> dict_at (write_dict h a d) a = d"
  by (simp_all add: write_dict_def data_of_def rows_of_def cols_of_def dict_at_def)

lemma owns_write:
  "owns h0 h a \<Longrightarrow> owns h0 (write_dict h a d) a"
  by (simp add: owns_def store_extends_write write_dict_props)

lemma matrix_at_write:
  assumes "data_of h r < length (dict_store h)"
  shows "matrix_at (write_dict h (data_of h r) d) r = (matrix_at h r)\<lparr>data := d\<rparr>"
  using assms by (simp add: matrix_at_def write_dict_props)


lemma result_is_setElement:
  assumes "result_is h0 h res m"
  shows "result_is h0 (setElement_code_store h res row col v) res (setElement_code m row col v)"
proof -
  let ?a = "data_of h res"
  from assms have o: "owns h0 h ?a" and r: "res < length (matrix_store h)"
    and m: "matrix_at h res = m"
    by (simp_all add: result_is_def)
  from o have a: "?a < length (dict_store h)" by (simp add: owns_def)
  have w: "result_is h0 (write_dict h ?a d) res (m\<lparr>data := d\<rparr>)" for d
    using owns_write [OF o] r matrix_at_write [OF a] m
    by (simp add: result_is_def write_dict_props)
  have dm: "dict_at h ?a = data m"
    using m by (simp add: dict_at_matrix_at)
  show ?thesis
    using w assms
    by (auto simp: setElement_code_store_def setElement_code_def Let_def dm)
qed

lemma result_is_operand:
  assumes "result_is h0 h res m" "valid_ref h0 r"
  shows "matrix_at h r = matrix_at h0 r"
  using assms store_extends_matrix_at(1) by (simp add: result_is_def owns_def)

lemma result_is_new:
  assumes "SparseMatrix_code_store h0 r c = (h, res)"
  shows "result_is h0 h res (SparseMatrix_code r c)" "res = length (matrix_store h0)"
proof -
  from assms have h: "h = \<lparr>dict_store = dict_store h0 @ [DAList.empty],
      matrix_store = matrix_store h0 @ [\<lparr>o_rows = r, o_cols = c, o_data = length (dict_store h0)\<rparr>]\<rparr>"
    and res: "res = length (matrix_store h0)"
    by (auto simp: SparseMatrix_code_store_def alloc_dict_def alloc_matrix_def)
  show "res = length (matrix_store h0)" by (rule res)
  show "result_is h0 h res (SparseMatrix_code r c)"
    by (simp add: result_is_def owns_def store_extends_def h res data_of_def matrix_at_def
        rows_of_def cols_of_def dict_at_def SparseMatrix_code_def)
qed

lemma add_code_store_refines:
  assumes "valid_ref h self" "valid_ref h other" "add_code_store h self other = (h', r)"
  shows "store_extends h h'
     \<and> map_sum id (matrix_at h') r = add_code (matrix_at h self) (matrix_at h other)
     \<and> (\<forall>e. r = Inl e \<longrightarrow> h' = h)"
proof (cases "rows_of h self \<noteq> rows_of h other \<or> cols_of h self \<noteq> cols_of h other")
  case True
  then have "add_code_store h self other = (h, Inl DimensionMismatch)"
    by (simp add: add_code_store_def)
  with assms(3) True show ?thesis
    by (auto simp: add_code_def rows_cols_matrix_at store_extends_refl)
next
  case False
  let ?A = "matrix_at h self" and ?B = "matrix_at h other"
  obtain h1 res where new: "SparseMatrix_code_store h (rows_of h self) (cols_of h self) = (h1, res)"
    by (cases "SparseMatrix_code_store h (rows_of h self) (cols_of h self)")
  let ?b1 = "\<lambda>h (pos, v). setElement_code_store h res (fst pos) (snd pos)
                     (v + getElement_code_store h other (fst pos) (snd pos))"
  let ?p1 = "\<lambda>m (pos, v). setElement_code m (fst pos) (snd pos)
                     (v + getElement_code ?B (fst pos) (snd pos))"
  let ?b2 = "\<lambda>h (pos, v). if \<not> dict_in pos (dict_at h (data_of h self))
                   then setElement_code_store h res (fst pos) (snd pos) v else h"
  let ?p2 = "\<lambda>m (pos, v). if \<not> dict_in pos (data ?A)
                   then setElement_code m (fst pos) (snd pos) v else m"
  let ?m0 = "SparseMatrix_code (rows ?A) (cols ?A)"
  let ?h2 = "foldl ?b1 h1 (items (dict_at h1 (data_of h1 self)))"
  let ?h3 = "foldl ?b2 ?h2 (items (dict_at ?h2 (data_of ?h2 other)))"
  let ?m2 = "foldl ?p1 ?m0 (items (data ?A))"
  let ?m3 = "foldl ?p2 ?m2 (items (data ?B))"
  have eq: "add_code_store h self other = (?h3, Inr res)"
    unfolding add_code_store_def new using False by (simp add: Let_def)
  have pure: "add_code ?A ?B = Inr ?m3"
    using False by (simp add: add_code_def rows_cols_matrix_at Let_def)
  have r1: "result_is h h1 res ?m0"
    using result_is_new(1) [OF new] by (simp add: rows_cols_matrix_at)
  have s1: "result_is h (?b1 g x) res (?p1 m x)" if "result_is h g res m" for g m x
    using result_is_setElement [OF that] result_is_operand [OF that assms(2)]
    by (simp add: getElement_code_store_eq split: prod.splits)
  have x1: "items (dict_at h1 (data_of h1 self)) = items (data ?A)"
    using result_is_operand [OF r1 assms(1)] by (simp add: dict_at_matrix_at)
  have r2: "result_is h ?h2 res ?m2"
    unfolding x1 by (rule foldl_simulation [where R = "\<lambda>g m. result_is h g res m", OF r1 s1])
  have s2: "result_is h (?b2 g x) res (?p2 m x)" if "result_is h g res m" for g m x
    using result_is_setElement [OF that] result_is_operand [OF that assms(1)] that
    by (simp add: dict_at_matrix_at split: prod.splits)
  have x2: "items (dict_at ?h2 (data_of ?h2 other)) = items (data ?B)"
    using result_is_operand [OF r2 assms(2)] by (simp add: dict_at_matrix_at)
  have r3: "result_is h ?h3 res ?m3"
    unfolding x2 by (rule foldl_simulation [where R = "\<lambda>g m. result_is h g res m", OF r2 s2])
  from assms(3) eq have h': "h' = ?h3" and r: "r = Inr res" by simp_all
  show ?thesis
    using r3 by (simp add: h' r pure result_is_def owns_def)
qed

lemma subtract_code_store_refines:
  assumes "valid_ref h self" "valid_ref h other" "subtract_code_store h self other = (h', r)"
  shows "store_extends h h'
     \<and> map_sum id (matrix_at h') r = subtract_code (matrix_at h self) (matrix_at h other)
     \<and> (\<forall>e. r = Inl e \<longrightarrow> h' = h)"
proof (cases "rows_of h self \<noteq> rows_of h other \<or> cols_of h self \<noteq> cols_of h other")
  case True
  then have "subtract_code_store h self other = (h, Inl DimensionMismatch)"
    by (simp add: subtract_code_store_def)
  with assms(3) True show ?thesis
    by (auto simp: subtract_code_def rows_cols_matrix_at store_extends_refl)
next
  case False
  let ?A = "matrix_at h self" and ?B = "matrix_at h other"
  obtain h1 res where new: "SparseMatrix_code_store h (rows_of h self) (cols_of h self) = (h1, res)"
    by (cases "SparseMatrix_code_store h (rows_of h self) (cols_of h self)")
  let ?b1 = "\<lambda>h (pos, v). setElement_code_store h res (fst pos) (snd pos)
                     (v - getElement_code_store h other (fst pos) (snd pos))"
  let ?p1 = "\<lambda>m (pos, v). setElement_code m (fst pos) (snd pos)
                     (v - getElement_code ?B (fst pos) (snd pos))"
  let ?b2 = "\<lambda>h (pos, v). if \<not> dict_in pos (dict_at h (data_of h self))
                   then setElement_code_store h res (fst pos) (snd pos) (- v) else h"
  let ?p2 = "\<lambda>m (pos, v). if \<not> dict_in pos (data ?A)
                   then setElement_code m (fst pos) (snd pos) (- v) else m"
  let ?m0 = "SparseMatrix_code (rows ?A) (cols ?A)"
  let ?h2 = "foldl ?b1 h1 (items (dict_at h1 (data_of h1 self)))"
  let ?h3 = "foldl ?b2 ?h2 (items (dict_at ?h2 (data_of ?h2 other)))"
  let ?m2 = "foldl ?p1 ?m0 (items (data ?A))"
  let ?m3 = "foldl ?p2 ?m2 (items (data ?B))"
  have eq: "subtract_code_store h self other = (?h3, Inr res)"
    unfolding subtract_code_store_def new using False by (simp add: Let_def)
  have pure: "subtract_code ?A ?B = Inr ?m3"
    using False by (simp add: subtract_code_def rows_cols_matrix_at Let_def)
  have r1: "result_is h h1 res ?m0"
    using result_is_new(1) [OF new] by (simp add: rows_cols_matrix_at)
  have s1: "result_is h (?b1 g x) res (?p1 m x)" if "result_is h g res m" for g m x
    using result_is_setElement [OF that] result_is_operand [OF that assms(2)]
    by (simp add: getElement_code_store_eq split: prod.splits)
  have x1: "items (dict_at h1 (data_of h1 self)) = items (data ?A)"
    using result_is_operand [OF r1 assms(1)] by (simp add: dict_at_matrix_at)
  have r2: "result_is h ?h2 res ?m2"
    unfolding x1 by (rule foldl_simulation [where R = "\<lambda>g m. result_is h g res m", OF r1 s1])
  have s2: "result_is h (?b2 g x) res (?p2 m x)" if "result_is h g res m" for g m x
    using result_is_setElement [OF that] result_is_operand [OF that assms(1)] that
    by (simp add: dict_at_matrix_at split: prod.splits)
  have x2: "items (dict_at ?h2 (data_of ?h2 other)) = items (data ?B)"
    using result_is_operand [OF r2 assms(2)] by (simp add: dict_at_matrix_at)
  have r3: "result_is h ?h3 res ?m3"
    unfolding x2 by (rule foldl_simulation [where R = "\<lambda>g m. result_is h g res m", OF r2 s2])
  from assms(3) eq have h': "h' = ?h3" and r: "r = Inr res" by simp_all
  show ?thesis
    using r3 by (simp add: h' r pure result_is_def owns_def)
qed


lemma total_code_store_eq:
  "total_code_store h self other i j = total_code (matrix_at h self) (matrix_at h other) i j"
  by (simp add: total_code_store_def total_code_def getElement_code_store_eq rows_cols_matrix_at)

lemma multiply_code_store_refines:
  assumes "valid_ref h self" "valid_ref h other" "multiply_code_store h self other = (h', r)"
  shows "store_extends h h'
     \<and> map_sum id (matrix_at h') r = multiply_code (matrix_at h self) (matrix_at h other)
     \<and> (\<forall>e. r = Inl e \<longrightarrow> h' = h)"
proof (cases "cols_of h self \<noteq> rows_of h other")
  case True
  then have "multiply_code_store h self other = (h, Inl DimensionMismatch)"
    by (simp add: multiply_code_store_def)
  with assms(3) True show ?thesis
    by (auto simp: multiply_code_def rows_cols_matrix_at store_extends_refl)
next
  case False
  let ?A = "matrix_at h self" and ?B = "matrix_at h other"
  obtain h1 res where new: "SparseMatrix_code_store h (rows_of h self) (cols_of h other) = (h1, res)"
    by (cases "SparseMatrix_code_store h (rows_of h self) (cols_of h other)")
  let ?bj = "\<lambda>i h j. let total = total_code_store h self other i j
                    in if total \<noteq> 0 then setElement_code_store h res i j total else h"
  let ?pj = "\<lambda>i m j. let total = total_code ?A ?B i j
                    in if total \<noteq> 0 then setElement_code m i j total else m"
  let ?bi = "\<lambda>h i. foldl (?bj i) h (range_py (cols_of h other))"
  let ?pi = "\<lambda>m i. foldl (?pj i) m (range_py (cols ?B))"
  let ?m0 = "SparseMatrix_code (rows ?A) (cols ?B)"
  let ?h2 = "foldl ?bi h1 (range_py (rows_of h1 self))"
  let ?m2 = "foldl ?pi ?m0 (range_py (rows ?A))"
  have eq: "multiply_code_store h self other = (?h2, Inr res)"
    unfolding multiply_code_store_def new using False by (simp add: Let_def)
  have pure: "multiply_code ?A ?B = Inr ?m2"
    using False by (simp add: multiply_code_def rows_cols_matrix_at Let_def)
  have r1: "result_is h h1 res ?m0"
    using result_is_new(1) [OF new] by (simp add: rows_cols_matrix_at)
  have sj: "result_is h (?bj i g j) res (?pj i m j)" if "result_is h g res m" for g m i j
    using result_is_setElement [OF that] result_is_operand [OF that assms(1)]
      result_is_operand [OF that assms(2)] that
    by (simp add: total_code_store_eq Let_def)
  have si: "result_is h (?bi g i) res (?pi m i)" if "result_is h g res m" for g m i
  proof -
    have c: "cols_of g other = cols ?B"
      using result_is_operand [OF that assms(2)] by (simp add: rows_cols_matrix_at)
    show ?thesis
      unfolding c
      by (rule foldl_simulation [where R = "\<lambda>g m. result_is h g res m", OF that sj])
  qed
  have x1: "rows_of h1 self = rows ?A"
    using result_is_operand [OF r1 assms(1)] by (simp add: rows_cols_matrix_at)
  have r2: "result_is h ?h2 res ?m2"
    unfolding x1 by (rule foldl_simulation [where R = "\<lambda>g m. result_is h g res m", OF r1 si])
  from assms(3) eq have h': "h' = ?h2" and r: "r = Inr res" by simp_all
  show ?thesis
    using r2 by (simp add: h' r pure result_is_def owns_def)
qed

lemma dict_is_write: "dict_is h0 h a d \<Longrightarrow> dict_is h0 (write_dict h a d') a d'"
  by (simp add: dict_is_def owns_write) (simp add: owns_def write_dict_props)

lemma dict_is_operand:
  assumes "dict_is h0 h a d" "valid_ref h0 r"
  shows "matrix_at h r = matrix_at h0 r"
  using assms store_extends_matrix_at(1) by (simp add: dict_is_def owns_def)

lemma dict_is_merge_entry:
  assumes "dict_is h0 h a d"
  shows "dict_is h0 (merge_entry_store comb fresh a h kv) a (merge_entry comb fresh d kv)"
proof -
  obtain key v where kv: "kv = (key, v)" by (cases kv)
  from assms have da: "dict_at h a = d" by (simp add: dict_is_def)
  show ?thesis
  proof (cases "DAList.lookup d key")
    case None
    then show ?thesis
      using dict_is_write [OF assms]
      by (simp add: merge_entry_store_def merge_entry_def kv da)
  next
    case (Some old)
    let ?u = "DAList.update key (comb old v) d"
    have 1: "dict_is h0 (write_dict h a ?u) a ?u"
      by (rule dict_is_write [OF assms])
    then have g: "dict_at (write_dict h a ?u) a = ?u" by (simp add: dict_is_def)
    show ?thesis
      using 1 dict_is_write [OF 1]
      by (simp add: merge_entry_store_def merge_entry_def kv da Some Let_def g)
  qed
qed

lemma dict_is_copy:
  assumes "dict_copy h a = (h1, b)"
  shows "dict_is h h1 b (dict_at h a)"
  using assms
  by (auto simp: dict_copy_def alloc_dict_def dict_is_def owns_def store_extends_def dict_at_def)

lemma dict_is_alloc:
  assumes "alloc_dict h d = (h1, b)"
  shows "dict_is h h1 b d"
  using assms
  by (auto simp: alloc_dict_def dict_is_def owns_def store_extends_def dict_at_def)

lemma SparseMatrix_integral_store_result:
  assumes "dict_is h0 h a d" "SparseMatrix_integral_store h r c (Some a) = (h', res)"
  shows "store_extends h0 h'" "matrix_at h' res = SparseMatrix_integral r c (Some d)"
proof -
  from assms(1) have o: "owns h0 h a" and da: "dict_at h a = d"
    by (simp_all add: dict_is_def)
  from o have e: "store_extends h0 h" and a: "a < length (dict_store h)"
    by (simp_all add: owns_def)
  show "store_extends h0 h'"
  proof (rule store_extends_trans [OF e])
    show "store_extends h h'"
      using assms(2)
      by (auto simp: SparseMatrix_integral_store_def alloc_dict_def alloc_matrix_def
          store_extends_def split: if_splits)
  qed
  show "matrix_at h' res = SparseMatrix_integral r c (Some d)"
    using assms(2) a da
    by (auto simp: SparseMatrix_integral_store_def alloc_dict_def alloc_matrix_def
        matrix_at_def rows_of_def cols_of_def data_of_def dict_at_def SparseMatrix_integral_def
        nth_append split: if_splits)
qed

lemma add_integral_store_refines:
  assumes "valid_ref h self" "valid_ref h other" "add_integral_store h self other = (h', r)"
  shows "store_extends h h'
     \<and> map_sum id (matrix_at h') r = add_integral (matrix_at h self) (matrix_at h other)
     \<and> (\<forall>e. r = Inl e \<longrightarrow> h' = h)"
proof (cases "rows_of h self \<noteq> rows_of h other \<or> cols_of h self \<noteq> cols_of h other")
  case True
  then have "add_integral_store h self other = (h, Inl DimensionMismatch)"
    by (simp add: add_integral_store_def)
  with assms(3) True show ?thesis
    by (auto simp: add_integral_def rows_cols_matrix_at store_extends_refl)
next
  case False
  let ?A = "matrix_at h self" and ?B = "matrix_at h other"
  obtain h1 rd where cp: "dict_copy h (data_of h self) = (h1, rd)"
    by (cases "dict_copy h (data_of h self)")
  let ?b = "merge_entry_store (\<lambda>old v. old + v) (\<lambda>v. v) rd"
  let ?p = "merge_entry (\<lambda>old v. old + v) (\<lambda>v. v)"
  let ?h2 = "foldl ?b h1 (items (dict_at h1 (data_of h1 other)))"
  let ?d2 = "foldl ?p (data ?A) (items (data ?B))"
  obtain h3 res where new:
    "SparseMatrix_integral_store ?h2 (rows_of ?h2 self) (cols_of ?h2 self) (Some rd) = (h3, res)"
    by (cases "SparseMatrix_integral_store ?h2 (rows_of ?h2 self) (cols_of ?h2 self) (Some rd)")
  have eq: "add_integral_store h self other = (h3, Inr res)"
    unfolding add_integral_store_def cp using False new by (simp add: Let_def)
  have pure: "add_integral ?A ?B = Inr (SparseMatrix_integral (rows ?A) (cols ?A) (Some ?d2))"
    using False by (simp add: add_integral_def rows_cols_matrix_at Let_def)
  have r1: "dict_is h h1 rd (data ?A)"
    using dict_is_copy [OF cp] by (simp add: dict_at_matrix_at)
  have x1: "items (dict_at h1 (data_of h1 other)) = items (data ?B)"
    using dict_is_operand [OF r1 assms(2)] by (simp add: dict_at_matrix_at)
  have r2: "dict_is h ?h2 rd ?d2"
    unfolding x1
    by (rule foldl_simulation [where R = "\<lambda>g d. dict_is h g rd d", OF r1 dict_is_merge_entry])
  have x2: "rows_of ?h2 self = rows ?A" "cols_of ?h2 self = cols ?A"
    using dict_is_operand [OF r2 assms(1)] by (simp_all add: rows_cols_matrix_at)
  note fin = SparseMatrix_integral_store_result [OF r2 new]
  from assms(3) eq have h': "h' = h3" and r: "r = Inr res" by simp_all
  show ?thesis
    using fin by (simp add: h' r pure x2)
qed

lemma subtract_integral_store_refines:
  assumes "valid_ref h self" "valid_ref h other" "subtract_integral_store h self other = (h', r)"
  shows "store_extends h h'
     \<and> map_sum id (matrix_at h') r = subtract_integral (matrix_at h self) (matrix_at h other)
     \<and> (\<forall>e. r = Inl e \<longrightarrow> h' = h)"
proof (cases "rows_of h self \<noteq> rows_of h other \<or> cols_of h self \<noteq> cols_of h other")
  case True
  then have "subtract_integral_store h self other = (h, Inl DimensionMismatch)"
    by (simp add: subtract_integral_store_def)
  with assms(3) True show ?thesis
    by (auto simp: subtract_integral_def rows_cols_matrix_at store_extends_refl)
next
  case False
  let ?A = "matrix_at h self" and ?B = "matrix_at h other"
  obtain h1 rd where cp: "dict_copy h (data_of h self) = (h1, rd)"
    by (cases "dict_copy h (data_of h self)")
  let ?b = "merge_entry_store (\<lambda>old v. old - v) (\<lambda>v. - v) rd"
  let ?p = "merge_entry (\<lambda>old v. old - v) (\<lambda>v. - v)"
  let ?h2 = "foldl ?b h1 (items (dict_at h1 (data_of h1 other)))"
  let ?d2 = "foldl ?p (data ?A) (items (data ?B))"
  obtain h3 res where new:
    "SparseMatrix_integral_store ?h2 (rows_of ?h2 self) (cols_of ?h2 self) (Some rd) = (h3, res)"
    by (cases "SparseMatrix_integral_store ?h2 (rows_of ?h2 self) (cols_of ?h2 self) (Some rd)")
  have eq: "subtract_integral_store h self other = (h3, Inr res)"
    unfolding subtract_integral_store_def cp using False new by (simp add: Let_def)
  have pure: "subtract_integral ?A ?B = Inr (SparseMatrix_integral (rows ?A) (cols ?A) (Some ?d2))"
    using False by (simp add: subtract_integral_def rows_cols_matrix_at Let_def)
  have r1: "dict_is h h1 rd (data ?A)"
    using dict_is_copy [OF cp] by (simp add: dict_at_matrix_at)
  have x1: "items (dict_at h1 (data_of h1 other)) = items (data ?B)"
    using dict_is_operand [OF r1 assms(2)] by (simp add: dict_at_matrix_at)
  have r2: "dict_is h ?h2 rd ?d2"
    unfolding x1
    by (rule foldl_simulation [where R = "\<lambda>g d. dict_is h g rd d", OF r1 dict_is_merge_entry])
  have x2: "rows_of ?h2 self = rows ?A" "cols_of ?h2 self = cols ?A"
    using dict_is_operand [OF r2 assms(1)] by (simp_all add: rows_cols_matrix_at)
  note fin = SparseMatrix_integral_store_result [OF r2 new]
  from assms(3) eq have h': "h' = h3" and r: "r = Inr res" by simp_all
  show ?thesis
    using fin by (simp add: h' r pure x2)
qed

lemma for_each_store_simulation:
  assumes "R h s"
    and step: "\<And>x h s. R h s \<Longrightarrow>
      (case body x h of
         (h', None) \<Rightarrow> (\<exists>s'. bodyP x s = Inr s' \<and> R h' s')
       | (h', Some e) \<Rightarrow> bodyP x s = Inl e \<and> E h')"
  shows "case for_each_store xs body h of
           (h', None) \<Rightarrow> (\<exists>s'. for_each xs bodyP s = Inr s' \<and> R h' s')
         | (h', Some e) \<Rightarrow> for_each xs bodyP s = Inl e \<and> E h'"
  using assms(1)
proof (induction xs arbitrary: h s)
  case Nil
  then show ?case by simp
next
  case (Cons x xs)
  obtain h1 r where b: "body x h = (h1, r)" by (cases "body x h")
  show ?case
  proof (cases r)
    case None
    with step [OF Cons.prems, of x] b obtain s1 where p: "bodyP x s = Inr s1" and r1: "R h1 s1"
      by auto
    obtain h2 r2 where f: "for_each_store xs body h1 = (h2, r2)"
      by (cases "for_each_store xs body h1")
    from Cons.IH [OF r1] show ?thesis
      by (cases r2) (simp_all add: b None p f)
  next
    case (Some e)
    with step [OF Cons.prems, of x] b show ?thesis
      by simp
  qed
qed

lemma getElement_integral_store_eq:
  "getElement_integral_store h r row col = getElement_integral (matrix_at h r) row col"
  by (simp add: getElement_integral_store_def getElement_integral_def out_of_range_def
      matrix_at_def)

lemma dict_is_extends: "dict_is h0 h a d \<Longrightarrow> store_extends h0 h"
  by (simp add: dict_is_def owns_def)

lemma accumulate_store_step:
  assumes "dict_is h0 g rd d" "valid_ref h0 other"
  shows "case accumulate_store other rd i k v j g of
           (g', None) \<Rightarrow> (\<exists>d'. accumulate (matrix_at h0 other) i k v j d = Inr d'
                              \<and> dict_is h0 g' rd d')
         | (g', Some e) \<Rightarrow> accumulate (matrix_at h0 other) i k v j d = Inl e
                              \<and> store_extends h0 g'"
proof -
  let ?B = "matrix_at h0 other"
  have ge: "getElement_integral_store g other k j = getElement_integral ?B k j"
    using dict_is_operand [OF assms] by (simp add: getElement_integral_store_eq)
  from assms(1) have da: "dict_at g rd = d" by (simp add: dict_is_def)
  show ?thesis
  proof (cases "getElement_integral ?B k j")
    case (Inl e)
    then show ?thesis
      using dict_is_extends [OF assms(1)]
      by (simp add: accumulate_store_def accumulate_def ge)
  next
    case (Inr val2)
    let ?u = "DAList.update (i, j) (dict_get d (i, j) 0 + v * val2) d"
    have 1: "dict_is h0 (write_dict g rd ?u) rd ?u"
      by (rule dict_is_write [OF assms(1)])
    then have gu: "dict_at (write_dict g rd ?u) rd = ?u" by (simp add: dict_is_def)
    show ?thesis
      using assms(1) 1 dict_is_write [OF 1]
      by (simp add: accumulate_store_def accumulate_def ge Inr Let_def da gu)
  qed
qed

lemma multiply_integral_store_refines:
  assumes "valid_ref h self" "valid_ref h other" "multiply_integral_store h self other = (h', r)"
  shows "store_extends h h'
     \<and> map_sum id (matrix_at h') r = multiply_integral (matrix_at h self) (matrix_at h other)
     \<and> (r = Inl DimensionMismatch \<longrightarrow> h' = h \<or> cols_of h self = rows_of h other)"
proof (cases "cols_of h self \<noteq> rows_of h other")
  case True
  then have "multiply_integral_store h self other = (h, Inl DimensionMismatch)"
    by (simp add: multiply_integral_store_def)
  with assms(3) True show ?thesis
    by (auto simp: multiply_integral_def rows_cols_matrix_at store_extends_refl)
next
  case False
  let ?A = "matrix_at h self" and ?B = "matrix_at h other"
  obtain h1 rd where al: "alloc_dict h DAList.empty = (h1, rd)"
    by (cases "alloc_dict h DAList.empty")
  let ?inner = "\<lambda>((i, k), val1).
                     for_each_store (range_py (cols_of h other))
                       (accumulate_store other rd i k val1)"
  let ?innerP = "\<lambda>((i, k), val1). for_each (range_py (cols ?B)) (accumulate ?B i k val1)"
  let ?loop = "for_each_store (items (dict_at h1 (data_of h1 self))) ?inner h1"
  have r1: "dict_is h h1 rd DAList.empty"
    by (rule dict_is_alloc [OF al])
  have x1: "items (dict_at h1 (data_of h1 self)) = items (data ?A)"
    using dict_is_operand [OF r1 assms(1)] by (simp add: dict_at_matrix_at)
  have inner: "case ?inner x g of
           (g', None) \<Rightarrow> (\<exists>d'. ?innerP x d = Inr d' \<and> dict_is h g' rd d')
         | (g', Some e) \<Rightarrow> ?innerP x d = Inl e \<and> store_extends h g'"
    if "dict_is h g rd d" for x g d
  proof -
    obtain i k val1 where x: "x = ((i, k), val1)" by (metis prod.collapse)
    have "case for_each_store (range_py (cols ?B)) (accumulate_store other rd i k val1) g of
           (g', None) \<Rightarrow> (\<exists>d'. for_each (range_py (cols ?B)) (accumulate ?B i k val1) d = Inr d'
                              \<and> dict_is h g' rd d')
         | (g', Some e) \<Rightarrow> for_each (range_py (cols ?B)) (accumulate ?B i k val1) d = Inl e
                              \<and> store_extends h g'"
      by (rule for_each_store_simulation [where R = "\<lambda>g d. dict_is h g rd d", OF that])
        (rule accumulate_store_step [OF _ assms(2)])
    then show ?thesis
      unfolding x by (auto simp: rows_cols_matrix_at split: prod.splits option.splits)
  qed
  have outer: "case ?loop of
           (g', None) \<Rightarrow> (\<exists>d'. for_each (items (data ?A)) ?innerP DAList.empty = Inr d'
                              \<and> dict_is h g' rd d')
         | (g', Some e) \<Rightarrow> for_each (items (data ?A)) ?innerP DAList.empty = Inl e
                              \<and> store_extends h g'"
    unfolding x1
    by (rule for_each_store_simulation [where R = "\<lambda>g d. dict_is h g rd d", OF r1 inner])
  obtain h2 e2 where lp: "?loop = (h2, e2)" by (cases ?loop)
  show ?thesis
  proof (cases e2)
    case (Some e)
    have eq: "multiply_integral_store h self other = (h2, Inl e)"
      unfolding multiply_integral_store_def al using False lp Some by (simp add: Let_def)
    from outer lp Some have p: "for_each (items (data ?A)) ?innerP DAList.empty = Inl e"
      and ex: "store_extends h h2"
      by simp_all
    have pure: "multiply_integral ?A ?B = Inl e"
      using False p by (simp add: multiply_integral_def rows_cols_matrix_at)
    from assms(3) eq have "h' = h2" "r = Inl e" by simp_all
    then show ?thesis using ex pure False by simp
  next
    case None
    from outer lp None obtain d2 where
      p: "for_each (items (data ?A)) ?innerP DAList.empty = Inr d2"
      and r2: "dict_is h h2 rd d2"
      by auto
    obtain h3 res where new:
      "SparseMatrix_integral_store h2 (rows_of h self) (cols_of h other) (Some rd) = (h3, res)"
      by (cases "SparseMatrix_integral_store h2 (rows_of h self) (cols_of h other) (Some rd)")
    have eq: "multiply_integral_store h self other = (h3, Inr res)"
      unfolding multiply_integral_store_def al using False lp None new by (simp add: Let_def)
    have pure: "multiply_integral ?A ?B =
        Inr (SparseMatrix_integral (rows ?A) (cols ?B) (Some d2))"
      using False p by (simp add: multiply_integral_def rows_cols_matrix_at)
    note fin = SparseMatrix_integral_store_result [OF r2 new]
    from assms(3) eq have "h' = h3" "r = Inr res" by simp_all
    then show ?thesis using fin pure by (simp add: rows_cols_matrix_at)
  qed
qed

lemma for_each_error:
  assumes "for_each xs body s = Inl e" "\<And>x s e. body x s = Inl e \<Longrightarrow> P e"
  shows "P e"
  using assms(1)
proof (induction xs arbitrary: s)
  case Nil
  then show ?case by simp
next
  case (Cons x xs)
  then show ?case
    by (cases "body x s") (auto intro: assms(2))
qed

lemma accumulate_error: "accumulate B i k v j d = Inl e \<Longrightarrow> e = IndexOutOfBounds"
  by (auto simp: accumulate_def getElement_integral_def Let_def split: if_splits sum.splits)

lemma multiply_integral_error:
  assumes "multiply_integral A B = Inl e"
  shows "e = DimensionMismatch \<and> cols A \<noteq> rows B \<or> e = IndexOutOfBounds"
proof (cases "cols A = rows B")
  case False
  with assms show ?thesis by (simp add: multiply_integral_def)
next
  case True
  let ?inner = "\<lambda>((i, k), val1). for_each (range_py (cols B)) (accumulate B i k val1)"
  from assms True have f: "for_each (items (data A)) ?inner DAList.empty = Inl e"
    by (simp add: multiply_integral_def Let_def split: sum.splits)
  have "e = IndexOutOfBounds"
  proof (rule for_each_error [OF f])
    fix x s e'
    assume a: "?inner x s = Inl e'"
    obtain i k val1 where x: "x = ((i, k), val1)" by (metis prod.collapse)
    from a have "for_each (range_py (cols B)) (accumulate B i k val1) s = Inl e'"
      by (simp add: x)
    then show "e' = IndexOutOfBounds"
      by (rule for_each_error) (rule accumulate_error)
  qed
  then show ?thesis by simp
qed

lemma multiply_integral_store_mismatch:
  assumes "valid_ref h self" "valid_ref h other" "multiply_integral_store h self other = (h', r)"
    "r = Inl DimensionMismatch"
  shows "h' = h"
proof -
  from multiply_integral_store_refines [OF assms(1-3)] assms(4)
  have p: "multiply_integral (matrix_at h self) (matrix_at h other) = Inl DimensionMismatch"
    and c: "h' = h \<or> cols_of h self = rows_of h other"
    by simp_all
  from multiply_integral_error [OF p] have "cols_of h self \<noteq> rows_of h other"
    by (simp add: rows_cols_matrix_at)
  with c show ?thesis by simp
qed

text \<open>
  Claim C9. For every pair of operands (also when both are the same object) and each
  of the operators \<open>add\<close>, \<open>subtract\<close> and \<open>multiply\<close> of either implementation, the
  call leaves both operands as they were: the same rows, the same cols and the same
  dictionary. Indeed every object of the store before the call is unchanged after it,
  and a call that fails with \<open>DimensionMismatch\<close> leaves the whole store unchanged.
  Moreover the result on the store is the result of the operator on values.
\<close>

theorem operands_not_mutated:
  assumes "valid_ref h self" "valid_ref h other"
    and "(op_store, op) \<in> set operators"
    and "op_store h self other = (h', r)"
  shows "matrix_at h' self = matrix_at h self \<and> matrix_at h' other = matrix_at h other
     \<and> store_extends h h'
     \<and> (r = Inl DimensionMismatch \<longrightarrow> h' = h)
     \<and> map_sum id (matrix_at h') r = op (matrix_at h self) (matrix_at h other)"
proof -
  have main: "store_extends h h'
     \<and> (r = Inl DimensionMismatch \<longrightarrow> h' = h)
     \<and> map_sum id (matrix_at h') r = op (matrix_at h self) (matrix_at h other)"
    using assms(3,4) add_code_store_refines [OF assms(1,2)]
      subtract_code_store_refines [OF assms(1,2)] multiply_code_store_refines [OF assms(1,2)]
      add_integral_store_refines [OF assms(1,2)] subtract_integral_store_refines [OF assms(1,2)]
      multiply_integral_store_refines [OF assms(1,2)]
      multiply_integral_store_mismatch [OF assms(1,2)]
    by (auto simp: operators_def)
  then have e: "store_extends h h'" by simp
  from store_extends_matrix_at(1) [OF e assms(1)] store_extends_matrix_at(1) [OF e assms(2)] main
  show ?thesis by simp
qed

text \<open>
  On \<open>store_example\<close>: a sum of two objects, a product of an object with itself, and
  a sum of operands of different shapes.
\<close>

theorem operands_not_mutated_witness:
  "valid_ref store_example 0 \<and> valid_ref store_example 1 \<and> valid_ref store_example 2
   \<and> snd (add_code_store store_example 0 1) = Inr 3
   \<and> matrix_at (fst (add_code_store store_example 0 1)) 0 = m_diag
   \<and> matrix_at (fst (add_code_store store_example 0 1)) 1 = m_neg
   \<and> snd (multiply_integral_store store_example 0 0) = Inr 3
   \<and> matrix_at (fst (multiply_integral_store store_example 0 0)) 0 = m_diag
   \<and> snd (add_integral_store store_example 0 2) = Inl DimensionMismatch
   \<and> fst (add_integral_store store_example 0 2) = store_example"
proof -
  have v: "valid_ref store_example 0" "valid_ref store_example 1" "valid_ref store_example 2"
    by (simp_all add: valid_ref_def store_example_def data_of_def)
  have m: "matrix_at store_example 0 = m_diag" "matrix_at store_example 1 = m_neg"
    by (simp_all add: matrix_at_def store_example_def data_of_def rows_of_def cols_of_def
        dict_at_def m_diag_def m_neg_def)
  have r1: "snd (add_code_store store_example 0 1) = Inr 3"
    unfolding store_example_def m_diag_def m_neg_def by code_simp
  have r2: "snd (multiply_integral_store store_example 0 0) = Inr 3"
    unfolding store_example_def m_diag_def m_neg_def by code_simp
  have r3: "snd (add_integral_store store_example 0 2) = Inl DimensionMismatch"
    unfolding store_example_def m_diag_def m_neg_def by code_simp
  have o: "(add_code_store, add_code) \<in> set operators"
    "(multiply_integral_store, multiply_integral) \<in> set operators"
    "(add_integral_store, add_integral) \<in> set operators"
    by (simp_all add: operators_def)
  note t1 = operands_not_mutated [OF v(1) v(2) o(1) surjective_pairing]
  note t2 = operands_not_mutated [OF v(1) v(1) o(2) surjective_pairing]
  note t3 = operands_not_mutated [OF v(1) v(3) o(3) surjective_pairing]
  show ?thesis
    using v m r1 r2 r3 t1 t2 t3 by simp
qed

end
